theory Spec2Isabelle
  imports Complex_Main "HOL-Library.Word" "HOL-Library.Signed_Division" "HOL-Library.Multiset"
begin

section \<open>tinyups3: a streaming multipart uploader\<close>

text \<open>
  The embedding follows the concurrent program of \<^verbatim>\<open>main.go\<close> (flags
  \<^verbatim>\<open>partSize\<close>, \<^verbatim>\<open>inputSize\<close>, \<^verbatim>\<open>concurrency\<close>; a buffer pool,
  a pool of workers and a result collector). The older sequential programs kept beside it
  are embedded where a property is about them.
\<close>

subsection \<open>Machine integers\<close>

text \<open>
  Go's \<^verbatim>\<open>int64\<close> and \<^verbatim>\<open>int32\<close> are modelled as \<^typ>\<open>int\<close> with the two's
  complement wrap-around written out; \<^verbatim>\<open>int\<close> is 64 bits wide on the platforms
  the program is built for. Go's \<^verbatim>\<open>/\<close> and \<^verbatim>\<open>%\<close> truncate towards zero: they are
  \<open>sdiv\<close> and \<open>smod\<close>. A division by zero panics.
\<close>

definition int64 :: "int \<Rightarrow> int" where
  "int64 x = (x + 2 ^ 63) mod 2 ^ 64 - 2 ^ 63"

definition int32 :: "int \<Rightarrow> int" where
  "int32 x = (x + 2 ^ 31) mod 2 ^ 32 - 2 ^ 31"

datatype panic = DivideByZero | SliceBounds | NilDereference | MakeSliceLen

subsection \<open>The number of parts\<close>

text \<open>
  \<^verbatim>\<open>main.go\<close>:
  \<^verbatim>\<open>
  partsCount := int(*inputSize / int64(partSize))
  if *inputSize%int64(partSize) != 0 {
      partsCount++
  }
  \<close>
\<close>

definition calculatePartsCount :: "int \<Rightarrow> int \<Rightarrow> panic + int" where
  "calculatePartsCount inputSize partSize =
     (if partSize = 0 then Inl DivideByZero
      else let partsCount = int64 (inputSize sdiv partSize)
           in if inputSize smod partSize \<noteq> 0 then Inr (int64 (partsCount + 1))
              else Inr partsCount)"

text \<open>
  The sequential program with an \<^verbatim>\<open>inputSize\<close> flag writes the same count the
  other way round:
  \<^verbatim>\<open>
  partsCount := int(*inputSize/int64(partSize)) + 1
  if *inputSize%int64(partSize) == 0 {
      partsCount--
  }
  \<close>
\<close>

definition calculatePartsCount_seq :: "int \<Rightarrow> int \<Rightarrow> panic + int" where
  "calculatePartsCount_seq inputSize partSize =
     (if partSize = 0 then Inl DivideByZero
      else let partsCount = int64 (int64 (inputSize sdiv partSize) + 1)
           in if inputSize smod partSize = 0 then Inr (int64 (partsCount - 1))
              else Inr partsCount)"

subsection \<open>Completed parts and the collector's slots\<close>

text \<open>
  \<^verbatim>\<open>types.CompletedPart\<close> holds two pointers, \<^verbatim>\<open>ETag *string\<close> and
  \<^verbatim>\<open>PartNumber *int32\<close>; its zero value has both \<^verbatim>\<open>nil\<close>. A worker takes the
  address of the part number of the task of its current iteration; every iteration of
  \<^verbatim>\<open>for part := range partsChan\<close> has a variable of its own (Go 1.22 and later), so
  the pointer is modelled by the value it points to.
\<close>

record CompletedPart =
  ETag :: "string option"
  PartNumber :: "int option"

definition zeroPart :: CompletedPart where
  "zeroPart = \<lparr>ETag = None, PartNumber = None\<rparr>"

text \<open>
  The collector stores a result:
  \<^verbatim>\<open>
  idx := int(*result.part.PartNumber) - 1
  if idx >= 0 && idx < len(completedParts) {
      completedParts[idx] = result.part
  }
  \<close>
\<close>

definition storePart :: "CompletedPart list \<Rightarrow> CompletedPart \<Rightarrow> panic + CompletedPart list" where
  "storePart completedParts p =
     (case PartNumber p of
        None \<Rightarrow> Inl NilDereference
      | Some n \<Rightarrow>
          let idx = n - 1
          in if idx \<ge> 0 \<and> idx < int (length completedParts)
             then Inr (completedParts[nat idx := p])
             else Inr completedParts)"

text \<open>
  A worker hands the collector one \<^verbatim>\<open>uploadResult\<close> per task: the completed part, or
  the error of the upload.
\<close>

type_synonym error = string

record uploadResult =
  part :: CompletedPart
  err :: "error option"

text \<open>
  The collector goroutine:
  \<^verbatim>\<open>
  for i := 0; i < partsCount; i++ {
      select {
      case result := <-resultsChan:
          if result.err != nil {
              uploadError = result.err
              cancel() // Cancel all workers
              return
          }
          // Store completed part in correct position
          idx := int(*result.part.PartNumber) - 1
          if idx >= 0 && idx < len(completedParts) {
              completedParts[idx] = result.part
          }
      case <-ctx.Done():
          return
      }
  }
  \<close>
  The results are given in the order in which \<^verbatim>\<open>resultsChan\<close> delivers them. The
  channel is never closed, and nothing but the collector itself cancels the context
  before \<^verbatim>\<open>main\<close> returns: when the loop wants one more result and none will come,
  the collector waits forever (\<open>Blocked\<close>). A panic in a goroutine ends the process.
\<close>

datatype collected =
    Collected "CompletedPart list"
  | UploadError error "CompletedPart list"
  | Blocked "CompletedPart list"
  | CollectorPanic panic

fun collector :: "int \<Rightarrow> int \<Rightarrow> uploadResult list \<Rightarrow> CompletedPart list \<Rightarrow> collected" where
  "collector partsCount i [] completedParts =
     (if i < partsCount then Blocked completedParts else Collected completedParts)"
| "collector partsCount i (result # arriving) completedParts =
     (if i < partsCount then
        (case err result of
           Some e \<Rightarrow> UploadError e completedParts
         | None \<Rightarrow>
             (case storePart completedParts (part result) of
                Inl p \<Rightarrow> CollectorPanic p
              | Inr stored \<Rightarrow> collector partsCount (i + 1) arriving stored))
      else Collected completedParts)"

subsection \<open>Standard input\<close>

text \<open>
  Standard input is a one-pass stream: the bytes it will still yield, and whether it ends
  in a read failure (an error of \<^verbatim>\<open>os.Stdin.Read\<close> other than \<^verbatim>\<open>io.EOF\<close>) instead
  of a clean end.

  \<^verbatim>\<open>io.ReadFull(r, buf)\<close> reads until \<^verbatim>\<open>buf\<close> is full. It returns \<^verbatim>\<open>len(buf)\<close>
  and no error when the stream had that many bytes (none is read when \<^verbatim>\<open>buf\<close> is
  empty); otherwise the bytes read before the stream ended, with \<^verbatim>\<open>io.EOF\<close> when
  there was none, \<^verbatim>\<open>io.ErrUnexpectedEOF\<close> when there were some, or the error of the
  failed read.
\<close>

type_synonym byte = "8 word"

datatype read_error = EOF | ErrUnexpectedEOF | ReadFailed

record stdin =
  pending :: "byte list"
  broken :: bool

definition ReadFull :: "stdin \<Rightarrow> nat \<Rightarrow> byte list \<times> read_error option \<times> stdin" where
  "ReadFull r len =
     (if len \<le> length (pending r)
      then (take len (pending r), None, r\<lparr>pending := drop len (pending r)\<rparr>)
      else (pending r,
            Some (if broken r then ReadFailed
                  else if pending r = [] then EOF else ErrUnexpectedEOF),
            r\<lparr>pending := []\<rparr>))"

subsection \<open>The reader\<close>

text \<open>
  A task carries the part number, the pooled buffer and the number of bytes read into it;
  the worker uploads \<^verbatim>\<open>part.data[:part.size]\<close>. The buffer is owned by the reader
  until the task is sent and by one worker afterwards, so \<open>data\<close> holds the bytes read
  (the filled prefix); what the buffer held before is never looked at.
\<close>

record partUpload =
  partNumber :: int
  data :: "byte list"
  psize :: int

text \<open>
  The loop of \<^verbatim>\<open>main\<close> that reads standard input and dispatches the tasks:
  \<^verbatim>\<open>
  var partNumber int32 = 1
  for partNumber <= int32(partsCount) {
      bufPtr := bufferPool.Get().(*[]byte)
      buf := *bufPtr
      remainingBytes := *inputSize - int64(partNumber-1)*int64(partSize)
      readSize := int64(partSize)
      if remainingBytes < readSize {
          readSize = remainingBytes
      }
      n, err := io.ReadFull(os.Stdin, buf[:readSize])
      if err != nil && err != io.EOF && err != io.ErrUnexpectedEOF {
          bufferPool.Put(bufPtr)
          readError = fmt.Errorf("failed to read part %d: %w", partNumber, err)
          break
      }
      if n == 0 {
          bufferPool.Put(bufPtr)
          break
      }
      task := partUpload{partNumber: partNumber, data: buf, size: n}
      select {
      case partsChan <- task:
      case <-ctx.Done():
          bufferPool.Put(bufPtr)
          break
      }
      partNumber++
      if err == io.EOF || err == io.ErrUnexpectedEOF {
          break
      }
  }
  \<close>
  The result is the list of tasks offered to \<^verbatim>\<open>partsChan\<close>, how the loop ended and
  what is left of the stream. The \<^verbatim>\<open>break\<close> under \<^verbatim>\<open>ctx.Done()\<close> leaves the
  \<^verbatim>\<open>select\<close> only: after a cancellation a task may be dropped instead of sent, and
  the loop goes on reading either way. The pool's \<^verbatim>\<open>New\<close> is
  \<^verbatim>\<open>make([]byte, partSize)\<close>, which panics for a negative length, and
  \<^verbatim>\<open>buf[:readSize]\<close> panics when \<^verbatim>\<open>readSize\<close> is negative.
\<close>

datatype loop_exit = LoopDone | LoopBreak | ReadError int | ReaderPanic panic

function readLoop :: "int \<Rightarrow> int \<Rightarrow> int \<Rightarrow> int \<Rightarrow> stdin \<Rightarrow> partUpload list \<times> loop_exit \<times> stdin" where
  "readLoop inputSize partSize partsCount partNo r =
     (if partNo \<le> int32 partsCount then
        if partSize < 0 then ([], ReaderPanic MakeSliceLen, r)
        else
        (let remainingBytes = int64 (inputSize - int64 (int32 (partNo - 1) * partSize));
             readSize = (if remainingBytes < partSize then remainingBytes else partSize)
         in if readSize < 0 then ([], ReaderPanic SliceBounds, r)
            else (case ReadFull r (nat readSize) of
                    (bytes, e, r') \<Rightarrow>
                      if e = Some ReadFailed then ([], ReadError partNo, r')
                      else if length bytes = 0 then ([], LoopBreak, r')
                      else (let task = \<lparr>partNumber = partNo, data = bytes,
                                          psize = int (length bytes)\<rparr>
                            in if e \<noteq> None then ([task], LoopBreak, r')
                               else (case readLoop inputSize partSize partsCount
                                            (int32 (partNo + 1)) r' of
                                       (ts, x, r'') \<Rightarrow> (task # ts, x, r'')))))
      else ([], LoopDone, r))"
  by pat_completeness auto
termination
  apply (relation "measure (\<lambda>(inputSize, partSize, partsCount, partNo, r). length (pending r))")
   apply simp
  apply (auto simp: ReadFull_def split: if_splits)
  done

declare readLoop.simps [simp del]

subsection \<open>Parsing the target\<close>

text \<open>
  \<^verbatim>\<open>main.go\<close>:
  \<^verbatim>\<open>
  func parseS3URI(s3uri string) (bucket, key string, err error) {
      if !strings.HasPrefix(s3uri, "s3://") {
          return "", "", errors.New("invalid S3 URI: must start with s3://")
      }
      u, err := url.Parse(s3uri)
      if err != nil {
          return "", "", err
      }
      bucket = u.Host
      key = strings.TrimPrefix(u.Path, "/")
      if bucket == "" || key == "" {
          return "", "", errors.New("invalid S3 URI: missing bucket or key")
      }
      return bucket, key, nil
  }
  \<close>
  \<^verbatim>\<open>url.Parse\<close> is Go's standard library (\<^verbatim>\<open>net/url\<close>, as of Go 1.22): it cuts the
  fragment at the first \<^verbatim>\<open>#\<close>, rejects ASCII control bytes, splits the scheme, cuts the
  query at the first \<^verbatim>\<open>?\<close>, takes the authority between \<^verbatim>\<open>//\<close> and the next
  \<^verbatim>\<open>/\<close> (user information, host, port) and percent-decodes the path. Strings are
  byte strings. The scheme is lower-cased and the user information and the query are
  stored, which \<^verbatim>\<open>parseS3URI\<close> never looks at.
\<close>

definition HasPrefix :: "string \<Rightarrow> string \<Rightarrow> bool" where
  "HasPrefix s p \<longleftrightarrow> take (length p) s = p"

definition TrimPrefix :: "string \<Rightarrow> string \<Rightarrow> string" where
  "TrimPrefix s p = (if HasPrefix s p then drop (length p) s else s)"

definition Cut :: "string \<Rightarrow> char \<Rightarrow> string \<times> string \<times> bool" where
  "Cut s sep =
     (let after = dropWhile (\<lambda>c. c \<noteq> sep) s
      in if after = [] then (s, [], False)
         else (takeWhile (\<lambda>c. c \<noteq> sep) s, tl after, True))"

definition LastIndex :: "string \<Rightarrow> char \<Rightarrow> nat option" where
  "LastIndex s sep =
     (if sep \<in> set s
      then Some (length s - 1 - length (takeWhile (\<lambda>c. c \<noteq> sep) (rev s)))
      else None)"

fun Index :: "string \<Rightarrow> string \<Rightarrow> nat option" where
  "Index [] substr = (if substr = [] then Some 0 else None)"
| "Index (c # cs) substr =
     (if HasPrefix (c # cs) substr then Some 0 else map_option Suc (Index cs substr))"

definition byte_of :: "char \<Rightarrow> nat" where
  "byte_of c = of_char c"

definition isLetter :: "char \<Rightarrow> bool" where
  "isLetter c \<longleftrightarrow> (97 \<le> byte_of c \<and> byte_of c \<le> 122) \<or> (65 \<le> byte_of c \<and> byte_of c \<le> 90)"

definition isDigit :: "char \<Rightarrow> bool" where
  "isDigit c \<longleftrightarrow> 48 \<le> byte_of c \<and> byte_of c \<le> 57"

definition ishex :: "char \<Rightarrow> bool" where
  "ishex c \<longleftrightarrow> isDigit c \<or> (97 \<le> byte_of c \<and> byte_of c \<le> 102) \<or> (65 \<le> byte_of c \<and> byte_of c \<le> 70)"

definition unhex :: "char \<Rightarrow> nat" where
  "unhex c =
     (if isDigit c then byte_of c - 48
      else if 97 \<le> byte_of c \<and> byte_of c \<le> 102 then byte_of c - 97 + 10
      else if 65 \<le> byte_of c \<and> byte_of c \<le> 70 then byte_of c - 65 + 10
      else 0)"

datatype url_error =
    InvalidControlCharacter
  | MissingProtocolScheme
  | ColonInFirstPathSegment
  | MissingBracket
  | InvalidPort
  | InvalidUserinfo
  | InvalidHostError
  | EscapeError

datatype encoding = encodePath | encodeHost | encodeZone | encodeUserPassword | encodeFragment

definition stringContainsCTLByte :: "string \<Rightarrow> bool" where
  "stringContainsCTLByte s \<longleftrightarrow> list_ex (\<lambda>c. byte_of c < 32 \<or> byte_of c = 127) s"

fun getScheme_from :: "string \<Rightarrow> nat \<Rightarrow> string \<Rightarrow> url_error + string \<times> string" where
  "getScheme_from rawURL i [] = Inr ([], rawURL)"
| "getScheme_from rawURL i (c # cs) =
     (if isLetter c then getScheme_from rawURL (i + 1) cs
      else if isDigit c \<or> c = CHR ''+'' \<or> c = CHR ''-'' \<or> c = CHR ''.'' then
        (if i = 0 then Inr ([], rawURL) else getScheme_from rawURL (i + 1) cs)
      else if c = CHR '':'' then
        (if i = 0 then Inl MissingProtocolScheme
         else Inr (take i rawURL, drop (i + 1) rawURL))
      else Inr ([], rawURL))"

definition getScheme :: "string \<Rightarrow> url_error + string \<times> string" where
  "getScheme rawURL = getScheme_from rawURL 0 rawURL"

definition shouldEscapeHost :: "char \<Rightarrow> bool" where
  "shouldEscapeHost c \<longleftrightarrow>
     \<not> (isLetter c \<or> isDigit c
        \<or> c \<in> set [CHR ''!'', CHR ''$'', CHR ''&'', CHR 0x27, CHR ''('', CHR '')'', CHR ''*'',
                     CHR ''+'', CHR '','', CHR '';'', CHR ''='', CHR '':'', CHR ''['', CHR '']'',
                     CHR ''<'', CHR ''>'', CHR 0x22]
        \<or> c \<in> set [CHR ''-'', CHR ''_'', CHR ''.'', CHR ''~''])"

fun unescape :: "string \<Rightarrow> encoding \<Rightarrow> url_error + string" where
  "unescape [] mode = Inr []"
| "unescape (c # cs) mode =
     (if c = CHR ''%'' then
        (case cs of
           h1 # h2 # rest \<Rightarrow>
             if \<not> ishex h1 \<or> \<not> ishex h2 then Inl EscapeError
             else if mode = encodeHost \<and> unhex h1 < 8 \<and> [h1, h2] \<noteq> ''25'' then Inl EscapeError
             else if mode = encodeZone \<and> [h1, h2] \<noteq> ''25''
                     \<and> char_of (unhex h1 * 16 + unhex h2) \<noteq> CHR '' ''
                     \<and> shouldEscapeHost (char_of (unhex h1 * 16 + unhex h2)) then Inl EscapeError
             else (case unescape rest mode of
                     Inl e \<Rightarrow> Inl e
                   | Inr t \<Rightarrow> Inr (char_of (unhex h1 * 16 + unhex h2) # t))
         | _ \<Rightarrow> Inl EscapeError)
      else if c \<noteq> CHR ''+'' \<and> (mode = encodeHost \<or> mode = encodeZone) \<and> byte_of c < 128
              \<and> shouldEscapeHost c then Inl InvalidHostError
      else (case unescape cs mode of Inl e \<Rightarrow> Inl e | Inr t \<Rightarrow> Inr (c # t)))"

definition validOptionalPort :: "string \<Rightarrow> bool" where
  "validOptionalPort port \<longleftrightarrow>
     port = [] \<or> (hd port = CHR '':'' \<and> list_all isDigit (tl port))"

definition validUserinfo :: "string \<Rightarrow> bool" where
  "validUserinfo s \<longleftrightarrow>
     list_all (\<lambda>r. isLetter r \<or> isDigit r
        \<or> r \<in> set [CHR ''-'', CHR ''.'', CHR ''_'', CHR '':'', CHR ''~'', CHR ''!'', CHR ''$'',
                     CHR ''&'', CHR 0x27, CHR ''('', CHR '')'', CHR ''*'', CHR ''+'', CHR '','',
                     CHR '';'', CHR ''='', CHR ''%'', CHR ''@'']) s"

definition parseHost :: "string \<Rightarrow> url_error + string" where
  "parseHost host =
     (if HasPrefix host ''['' then
        (case LastIndex host CHR '']'' of
           None \<Rightarrow> Inl MissingBracket
         | Some i \<Rightarrow>
             if \<not> validOptionalPort (drop (i + 1) host) then Inl InvalidPort
             else (case Index (take i host) ''%25'' of
                     Some zone \<Rightarrow>
                       (case unescape (take zone host) encodeHost of
                          Inl e \<Rightarrow> Inl e
                        | Inr host1 \<Rightarrow>
                            (case unescape (drop zone (take i host)) encodeZone of
                               Inl e \<Rightarrow> Inl e
                             | Inr host2 \<Rightarrow>
                                 (case unescape (drop i host) encodeHost of
                                    Inl e \<Rightarrow> Inl e
                                  | Inr host3 \<Rightarrow> Inr (host1 @ host2 @ host3))))
                   | None \<Rightarrow> unescape host encodeHost))
      else (case LastIndex host CHR '':'' of
              Some i \<Rightarrow>
                if \<not> validOptionalPort (drop i host) then Inl InvalidPort
                else unescape host encodeHost
            | None \<Rightarrow> unescape host encodeHost))"

definition parseAuthority :: "string \<Rightarrow> url_error + string" where
  "parseAuthority authority =
     (case LastIndex authority CHR ''@'' of
        None \<Rightarrow> parseHost authority
      | Some i \<Rightarrow>
          (case parseHost (drop (i + 1) authority) of
             Inl e \<Rightarrow> Inl e
           | Inr host \<Rightarrow>
               let userinfo = take i authority
               in if \<not> validUserinfo userinfo then Inl InvalidUserinfo
                  else if CHR '':'' \<notin> set userinfo then
                    (case unescape userinfo encodeUserPassword of
                       Inl e \<Rightarrow> Inl e
                     | Inr _ \<Rightarrow> Inr host)
                  else (case Cut userinfo CHR '':'' of
                          (username, password, _) \<Rightarrow>
                            (case unescape username encodeUserPassword of
                               Inl e \<Rightarrow> Inl e
                             | Inr _ \<Rightarrow>
                                 (case unescape password encodeUserPassword of
                                    Inl e \<Rightarrow> Inl e
                                  | Inr _ \<Rightarrow> Inr host)))))"

record URL =
  Scheme :: string
  Opaque :: string
  Host :: string
  Path :: string
  RawQuery :: string
  Fragment :: string

definition parse :: "string \<Rightarrow> url_error + URL" where
  "parse rawURL =
     (if stringContainsCTLByte rawURL then Inl InvalidControlCharacter
      else if rawURL = ''*'' then
        Inr \<lparr>Scheme = [], Opaque = [], Host = [], Path = ''*'', RawQuery = [], Fragment = []\<rparr>
      else
        (case getScheme rawURL of
           Inl e \<Rightarrow> Inl e
         | Inr (scheme, rest0) \<Rightarrow>
             (case (if rest0 \<noteq> [] \<and> last rest0 = CHR ''?'' \<and> count_list rest0 CHR ''?'' = 1
                    then (butlast rest0, [], True) else Cut rest0 CHR ''?'') of
                (rest, rawQuery, _) \<Rightarrow>
                  if \<not> HasPrefix rest ''/'' \<and> scheme \<noteq> [] then
                    Inr \<lparr>Scheme = scheme, Opaque = rest, Host = [], Path = [],
                         RawQuery = rawQuery, Fragment = []\<rparr>
                  else if \<not> HasPrefix rest ''/''
                          \<and> CHR '':'' \<in> set (takeWhile (\<lambda>c. c \<noteq> CHR ''/'') rest) then
                    Inl ColonInFirstPathSegment
                  else if (scheme \<noteq> [] \<or> \<not> HasPrefix rest ''///'') \<and> HasPrefix rest ''//'' then
                    (let authority = takeWhile (\<lambda>c. c \<noteq> CHR ''/'') (drop 2 rest);
                         rest' = dropWhile (\<lambda>c. c \<noteq> CHR ''/'') (drop 2 rest)
                     in case parseAuthority authority of
                          Inl e \<Rightarrow> Inl e
                        | Inr host \<Rightarrow>
                            (case unescape rest' encodePath of
                               Inl e \<Rightarrow> Inl e
                             | Inr path \<Rightarrow>
                                 Inr \<lparr>Scheme = scheme, Opaque = [], Host = host, Path = path,
                                      RawQuery = rawQuery, Fragment = []\<rparr>))
                  else
                    (case unescape rest encodePath of
                       Inl e \<Rightarrow> Inl e
                     | Inr path \<Rightarrow>
                         Inr \<lparr>Scheme = scheme, Opaque = [], Host = [], Path = path,
                              RawQuery = rawQuery, Fragment = []\<rparr>))))"

definition url_Parse :: "string \<Rightarrow> url_error + URL" where
  "url_Parse rawURL =
     (case Cut rawURL CHR ''#'' of
        (u, frag, _) \<Rightarrow>
          (case parse u of
             Inl e \<Rightarrow> Inl e
           | Inr url \<Rightarrow>
               if frag = [] then Inr url
               else (case unescape frag encodeFragment of
                       Inl e \<Rightarrow> Inl e
                     | Inr f \<Rightarrow> Inr (url\<lparr>Fragment := f\<rparr>))))"

text \<open>
  The errors of \<^verbatim>\<open>parseS3URI\<close>: the two of its own, the error of \<^verbatim>\<open>url.Parse\<close>,
  and the one error of the older program's parser.
\<close>

datatype uri_error = MustStartWithS3 | UrlError url_error | MissingBucketOrKey | InvalidFormat

definition parseS3URI :: "string \<Rightarrow> uri_error + string \<times> string" where
  "parseS3URI s3uri =
     (if \<not> HasPrefix s3uri ''s3://'' then Inl MustStartWithS3
      else (case url_Parse s3uri of
              Inl e \<Rightarrow> Inl (UrlError e)
            | Inr u \<Rightarrow>
                let bucket = Host u; key = TrimPrefix (Path u) ''/''
                in if bucket = [] \<or> key = [] then Inl MissingBucketOrKey
                   else Inr (bucket, key)))"

text \<open>
  The older program built on the SDK's upload manager parses the target with a regular
  expression:
  \<^verbatim>\<open>
  re := regexp.MustCompile(`^s3://([^/]+)/(.+)$`)
  matches := re.FindStringSubmatch(uri)
  if len(matches) != 3 {
      return "", "", fmt.Errorf("invalid S3 URI format, expected s3://bucket/path/to/file")
  }
  bucket = matches[1]
  key = matches[2]
  \<close>
  The first group cannot cross a \<^verbatim>\<open>/\<close>, so it is the run up to the first one; the
  second group is what follows, and \<^verbatim>\<open>.\<close> does not match a newline. The two checks
  for an empty bucket and an empty key that follow can never fail.
\<close>

definition parseS3URI_regexp :: "string \<Rightarrow> uri_error + string \<times> string" where
  "parseS3URI_regexp uri =
     (if \<not> HasPrefix uri ''s3://'' then Inl InvalidFormat
      else let bucket = takeWhile (\<lambda>c. c \<noteq> CHR ''/'') (drop 5 uri);
               after = dropWhile (\<lambda>c. c \<noteq> CHR ''/'') (drop 5 uri)
           in if bucket = [] \<or> after = [] then Inl InvalidFormat
              else let key = tl after
                   in if key = [] \<or> CHR 0x0A \<in> set key then Inl InvalidFormat
                      else Inr (bucket, key))"

subsection \<open>The storage client and the workers\<close>

text \<open>
  The S3 client is given by the answers of the backend: an error or the value the call
  returns. A part is uploaded at most once, so the answer to \<^verbatim>\<open>UploadPart\<close> is a
  function of the part number and the body.
\<close>

record backend =
  LoadDefaultConfig :: "error option"
  CreateMultipartUpload :: "string \<Rightarrow> string \<Rightarrow> error + string"
  UploadPart :: "int \<Rightarrow> byte list \<Rightarrow> error + string"
  CompleteMultipartUpload :: "CompletedPart list \<Rightarrow> error option"
  AbortMultipartUpload :: "error option"

text \<open>
  One iteration of a worker, from the task it received to the result it sends:
  \<^verbatim>\<open>
  reader := newBytesReader(part.data[:part.size])
  uploadInput := &s3.UploadPartInput{..., PartNumber: &part.partNumber, Body: reader}
  result := uploadResult{}
  uploadOutput, err := client.UploadPart(ctx, uploadInput)
  bufferPool.Put(&part.data)
  if err != nil {
      result.err = err
  } else {
      result.part = types.CompletedPart{ETag: uploadOutput.ETag, PartNumber: &part.partNumber}
  }
  \<close>
\<close>

definition worker :: "backend \<Rightarrow> partUpload \<Rightarrow> uploadResult" where
  "worker client task =
     (case UploadPart client (partNumber task) (take (nat (psize task)) (data task)) of
        Inl e \<Rightarrow> \<lparr>part = zeroPart, err = Some e\<rparr>
      | Inr etag \<Rightarrow>
          \<lparr>part = \<lparr>ETag = Some etag, PartNumber = Some (partNumber task)\<rparr>, err = None\<rparr>)"

subsection \<open>The program\<close>

text \<open>
  The flags and the positional arguments of the command line.
\<close>

record flags =
  flag_partSize :: int
  flag_inputSize :: int
  flag_concurrency :: int
  flag_args :: "string list"

text \<open>
  How the process ends: \<^verbatim>\<open>log.Fatalf\<close> (the message is named by its cause),
  \<^verbatim>\<open>flag.Usage(); os.Exit(1)\<close>, a panic, \<^verbatim>\<open>main\<close> waiting forever in
  \<^verbatim>\<open>collectorWG.Wait()\<close> (until the Go runtime, once no goroutine can run, ends the
  process with a deadlock report), or \<^verbatim>\<open>"Upload completed successfully."\<close>.
  \<open>ReadInputFailed\<close> is \<^verbatim>\<open>"Failed to read input: %v"\<close> of the older programs.
\<close>

datatype fatal =
    PartSizeTooSmall
  | ConcurrencyTooSmall
  | InputSizeNotPositive
  | BadURI uri_error
  | ConfigLoadFailed error
  | CreateFailed error
  | ReadErrorAt int
  | UploadFailed error
  | CompleteFailed error
  | ReadInputFailed

datatype outcome = Fatal fatal | UsageExit | Panicked panic | Hang | Completed

text \<open>
  The calls of \<^verbatim>\<open>main\<close> itself to the backend that open and close the session, in
  order. The workers call \<^verbatim>\<open>UploadPart\<close> after the session is created and before
  \<^verbatim>\<open>main\<close> completes or aborts it: an empty list means that no remote call was issued.
  \<open>Upload\<close> is a call of the older sequential program only, whose \<^verbatim>\<open>main\<close> uploads
  each part itself, between two reads.
\<close>

datatype session_call =
    Create string string
  | Complete "CompletedPart list"
  | Abort
  | Upload int "byte list"

text \<open>
  \<^verbatim>\<open>main.go\<close>:
  \<^verbatim>\<open>
  if *partSizeMB < 5 {
      log.Fatalf("partSize must be at least 5MB")
  }
  if *inputSize <= 0 {
      log.Fatalf("inputSize must be a positive integer")
  }
  if flag.NArg() != 1 {
      flag.Usage()
      os.Exit(1)
  }
  if *concurrency < 1 {
      *concurrency = 1
  }
  \<close>
\<close>

definition validateFlags :: "flags \<Rightarrow> outcome + flags" where
  "validateFlags fl =
     (if flag_partSize fl < 5 then Inl (Fatal PartSizeTooSmall)
      else if flag_inputSize fl \<le> 0 then Inl (Fatal InputSizeNotPositive)
      else if length (flag_args fl) \<noteq> 1 then Inl UsageExit
      else if flag_concurrency fl < 1 then Inr (fl\<lparr>flag_concurrency := 1\<rparr>)
      else Inr fl)"

text \<open>
  The older worker-pool program (its workers append the completed parts under a mutex)
  validates the same flags this way:
  \<^verbatim>\<open>
  if *partSizeMB < 5 {
      log.Fatalf("partSize must be at least 5MB")
  }
  if *concurrency < 1 {
      log.Fatalf("concurrency must be at least 1")
  }
  partSize := *partSizeMB * 1024 * 1024
  if *inputSize <= 0 {
      log.Fatalf("inputSize must be a positive integer")
  }
  if flag.NArg() != 1 {
      flag.Usage()
      os.Exit(1)
  }
  \<close>
\<close>

definition validateFlags_pool :: "flags \<Rightarrow> outcome + flags" where
  "validateFlags_pool fl =
     (if flag_partSize fl < 5 then Inl (Fatal PartSizeTooSmall)
      else if flag_concurrency fl < 1 then Inl (Fatal ConcurrencyTooSmall)
      else if flag_inputSize fl \<le> 0 then Inl (Fatal InputSizeNotPositive)
      else if length (flag_args fl) \<noteq> 1 then Inl UsageExit
      else Inr fl)"

text \<open>
  The end of \<^verbatim>\<open>main\<close>, once the workers and the collector have returned:
  \<^verbatim>\<open>
  if readError != nil {
      abortMultipart(ctx, client, bucket, key, uploadID)
      log.Fatalf("Read error: %v", readError)
  }
  if uploadError != nil {
      abortMultipart(ctx, client, bucket, key, uploadID)
      log.Fatalf("Upload error: %v", uploadError)
  }
  _, err = client.CompleteMultipartUpload(ctx, &s3.CompleteMultipartUploadInput{...
      MultipartUpload: &types.CompletedMultipartUpload{Parts: completedParts}})
  if err != nil {
      abortMultipart(ctx, client, bucket, key, uploadID)
      log.Fatalf("Failed to complete multipart upload: %v", err)
  }
  \<close>
  \<^verbatim>\<open>abortMultipart\<close> logs a warning when the abort fails and returns.
\<close>

definition finish :: "backend \<Rightarrow> int option \<Rightarrow> error option \<Rightarrow> CompletedPart list
    \<Rightarrow> session_call list \<times> outcome" where
  "finish client readError uploadError completedParts =
     (case readError of
        Some n \<Rightarrow> ([Abort], Fatal (ReadErrorAt n))
      | None \<Rightarrow>
          (case uploadError of
             Some e \<Rightarrow> ([Abort], Fatal (UploadFailed e))
           | None \<Rightarrow>
               (case CompleteMultipartUpload client completedParts of
                  Some e \<Rightarrow> ([Complete completedParts, Abort], Fatal (CompleteFailed e))
                | None \<Rightarrow> ([Complete completedParts], Completed))))"

text \<open>
  The session, from \<^verbatim>\<open>completedParts := make([]types.CompletedPart, partsCount)\<close> to
  the end of \<^verbatim>\<open>main\<close>. The reader offers its tasks to the workers, every worker sends
  one result per task, and \<open>arrival\<close> is the order in which the results reach the
  collector: a permutation of the tasks, whatever the number of workers. The collector
  stops at the first error it receives, and \<^verbatim>\<open>main\<close> waits for it
  (\<^verbatim>\<open>collectorWG.Wait()\<close>) before it looks at \<^verbatim>\<open>readError\<close> and
  \<^verbatim>\<open>uploadError\<close>. Limits of memory are not modelled.
\<close>

definition readErrorOf :: "loop_exit \<Rightarrow> int option" where
  "readErrorOf stop = (case stop of ReadError n \<Rightarrow> Some n | _ \<Rightarrow> None)"

definition session :: "int \<Rightarrow> int \<Rightarrow> int \<Rightarrow> stdin \<Rightarrow> backend
    \<Rightarrow> (partUpload list \<Rightarrow> partUpload list) \<Rightarrow> session_call list \<times> outcome" where
  "session inputSize partSize partsCount input client arrival =
     (if partsCount < 0 then ([], Panicked MakeSliceLen)
      else
        (case readLoop inputSize partSize partsCount 1 input of
           (tasks, stop, _) \<Rightarrow>
             (case stop of
                ReaderPanic p \<Rightarrow> ([], Panicked p)
              | _ \<Rightarrow>
                  (case collector partsCount 0 (map (worker client) (arrival tasks))
                          (replicate (nat partsCount) zeroPart) of
                     CollectorPanic p \<Rightarrow> ([], Panicked p)
                   | Blocked _ \<Rightarrow> ([], Hang)
                   | UploadError e completedParts \<Rightarrow>
                       finish client (readErrorOf stop) (Some e) completedParts
                   | Collected completedParts \<Rightarrow>
                       finish client (readErrorOf stop) None completedParts))))"

text \<open>
  \<^verbatim>\<open>main\<close>: the flags, the target, the configuration of the client, the part size
  \<^verbatim>\<open>*partSizeMB * 1024 * 1024\<close>, the part count, the creation of the session, and the
  session.
\<close>

definition run :: "flags \<Rightarrow> stdin \<Rightarrow> backend \<Rightarrow> (partUpload list \<Rightarrow> partUpload list)
    \<Rightarrow> session_call list \<times> outcome" where
  "run fl input client arrival =
     (case validateFlags fl of
        Inl x \<Rightarrow> ([], x)
      | Inr fl' \<Rightarrow>
          (case parseS3URI (hd (flag_args fl')) of
             Inl e \<Rightarrow> ([], Fatal (BadURI e))
           | Inr (bucket, key) \<Rightarrow>
               (case LoadDefaultConfig client of
                  Some e \<Rightarrow> ([], Fatal (ConfigLoadFailed e))
                | None \<Rightarrow>
                    (let partSize = int64 (int64 (flag_partSize fl' * 1024) * 1024)
                     in case calculatePartsCount (flag_inputSize fl') partSize of
                          Inl p \<Rightarrow> ([], Panicked p)
                        | Inr partsCount \<Rightarrow>
                            (case CreateMultipartUpload client bucket key of
                               Inl e \<Rightarrow> ([Create bucket key], Fatal (CreateFailed e))
                             | Inr uploadID \<Rightarrow>
                                 (case session (flag_inputSize fl') partSize partsCount
                                         input client arrival of
                                    (calls, x) \<Rightarrow> (Create bucket key # calls, x)))))))"

subsection \<open>The older programs\<close>

text \<open>
  The first program of \<^verbatim>\<open>main.go\<close> uploads the parts one after the other from
  \<^verbatim>\<open>main\<close> itself. Its part size is computed from the free memory of the machine
  (between 5 MB and 5 GB) and is a parameter here. The loop:
  \<^verbatim>\<open>
  partNumber := int32(1)
  for {
      n, err := io.ReadAtLeast(os.Stdin, buffer, partSize)
      if err != nil && err != io.EOF && err != io.ErrUnexpectedEOF {
          abortMultipart(ctx, client, bucket, key, uploadID)
          log.Fatalf("Failed to read input: %v", err)
      }
      if n == 0 {
          break
      }
      pn := partNumber
      partInput := &s3.UploadPartInput{..., PartNumber: &pn, Body: bytes.NewReader(buffer[:n])}
      uploadOutput, err := client.UploadPart(ctx, partInput)
      if err != nil {
          abortMultipart(ctx, client, bucket, key, uploadID)
          log.Fatalf("Failed to upload part %d: %v", partNumber, err)
      }
      parts = append(parts, types.CompletedPart{ETag: uploadOutput.ETag, PartNumber: &pn})
      partNumber++
      if err == io.EOF || err == io.ErrUnexpectedEOF {
          break
      }
  }
  \<close>
  \<^verbatim>\<open>buffer\<close> has \<^verbatim>\<open>partSize\<close> bytes, so \<^verbatim>\<open>io.ReadAtLeast\<close> is
  \<^verbatim>\<open>io.ReadFull\<close>. The declared input size does not occur in the loop. The result is
  the calls made, the fatal end or the parts appended, and what is left of the stream.
\<close>

function uploadLoop_seq :: "backend \<Rightarrow> int \<Rightarrow> int \<Rightarrow> stdin \<Rightarrow> CompletedPart list
    \<Rightarrow> session_call list \<times> (outcome + CompletedPart list) \<times> stdin" where
  "uploadLoop_seq client partSize partNo r parts =
     (case ReadFull r (nat partSize) of
        (bytes, e, r') \<Rightarrow>
          if e = Some ReadFailed then ([Abort], Inl (Fatal ReadInputFailed), r')
          else if length bytes = 0 then ([], Inr parts, r')
          else (case UploadPart client partNo bytes of
                  Inl uploadErr \<Rightarrow>
                    ([Upload partNo bytes, Abort], Inl (Fatal (UploadFailed uploadErr)), r')
                | Inr etag \<Rightarrow>
                    (let parts' = parts @ [\<lparr>ETag = Some etag, PartNumber = Some partNo\<rparr>]
                     in if e \<noteq> None then ([Upload partNo bytes], Inr parts', r')
                        else (case uploadLoop_seq client partSize (int32 (partNo + 1)) r' parts' of
                                (calls, res, r'') \<Rightarrow> (Upload partNo bytes # calls, res, r'')))))"
  by pat_completeness auto
termination
  apply (relation "measure (\<lambda>(client, partSize, partNo, r, parts). length (pending r))")
   apply simp
  apply (auto simp: ReadFull_def split: if_splits)
  done

declare uploadLoop_seq.simps [simp del]

text \<open>
  The sequential program from the estimate of the part count to its end:
  \<^verbatim>\<open>
  estParts := int(*inputSize / int64(partSize))
  if *inputSize%int64(partSize) != 0 {
      estParts++
  }
  createOutput, err := client.CreateMultipartUpload(ctx, ...)
  if err != nil {
      log.Fatalf("Failed to initiate multipart upload: %v", err)
  }
  uploadID := createOutput.UploadId
  parts := make([]types.CompletedPart, 0, estParts)
  buffer := make([]byte, partSize)
  ... the loop ...
  _, err = client.CompleteMultipartUpload(ctx, ... Parts: parts ...)
  if err != nil {
      log.Fatalf("Failed to complete multipart upload: %v", err)
  }
  \<close>
  A failed completion is not followed by an abort here.
\<close>

definition session_seq :: "backend \<Rightarrow> string \<Rightarrow> string \<Rightarrow> int \<Rightarrow> int \<Rightarrow> stdin
    \<Rightarrow> session_call list \<times> outcome \<times> stdin" where
  "session_seq client bucket key inputSize partSize input =
     (case calculatePartsCount inputSize partSize of
        Inl p \<Rightarrow> ([], Panicked p, input)
      | Inr estParts \<Rightarrow>
          (case CreateMultipartUpload client bucket key of
             Inl e \<Rightarrow> ([Create bucket key], Fatal (CreateFailed e), input)
           | Inr uploadID \<Rightarrow>
               if estParts < 0 \<or> partSize < 0 then ([Create bucket key], Panicked MakeSliceLen, input)
               else (case uploadLoop_seq client partSize 1 input [] of
                       (calls, Inl x, r) \<Rightarrow> (Create bucket key # calls, x, r)
                     | (calls, Inr parts, r) \<Rightarrow>
                         (case CompleteMultipartUpload client parts of
                            Some e \<Rightarrow> (Create bucket key # calls @ [Complete parts],
                                       Fatal (CompleteFailed e), r)
                          | None \<Rightarrow> (Create bucket key # calls @ [Complete parts],
                                     Completed, r)))))"

text \<open>
  The worker-pool program (the second program of \<^verbatim>\<open>main_test.go\<close>) reads the same
  way, copies what it read and sends it to the workers:
  \<^verbatim>\<open>
  type partTask struct {
      partNumber int32
      data       []byte
  }
  ...
  partNumber := int32(1)
  buffer := make([]byte, partSize)
  for {
      n, err := io.ReadAtLeast(os.Stdin, buffer, partSize)
      if err != nil && err != io.EOF && err != io.ErrUnexpectedEOF {
          close(partChan)
          abortMultipart(ctx, client, bucket, key, uploadID)
          log.Fatalf("Failed to read input: %v", err)
      }
      if n == 0 {
          break
      }
      partData := make([]byte, n)
      copy(partData, buffer[:n])
      partChan <- partTask{partNumber: partNumber, data: partData}
      partNumber++
      if err == io.EOF || err == io.ErrUnexpectedEOF {
          break
      }
  }
  close(partChan)
  \<close>
  The result is the tasks sent, whether a read failed, and what is left of the stream.
\<close>

record partTask =
  task_partNumber :: int
  task_data :: "byte list"

function readAll :: "int \<Rightarrow> int \<Rightarrow> stdin \<Rightarrow> partTask list \<times> bool \<times> stdin" where
  "readAll partSize partNo r =
     (case ReadFull r (nat partSize) of
        (bytes, e, r') \<Rightarrow>
          if e = Some ReadFailed then ([], True, r')
          else if length bytes = 0 then ([], False, r')
          else (let task = \<lparr>task_partNumber = partNo, task_data = bytes\<rparr>
                in if e \<noteq> None then ([task], False, r')
                   else (case readAll partSize (int32 (partNo + 1)) r' of
                           (ts, failed, r'') \<Rightarrow> (task # ts, failed, r''))))"
  by pat_completeness auto
termination
  apply (relation "measure (\<lambda>(partSize, partNo, r). length (pending r))")
   apply simp
  apply (auto simp: ReadFull_def split: if_splits)
  done

declare readAll.simps [simp del]

text \<open>
  The workers of the pool:
  \<^verbatim>\<open>
  for i := 0; i < *concurrency; i++ {
      wg.Add(1)
      go func() {
          defer wg.Done()
          for task := range partChan {
              partInput := &s3.UploadPartInput{..., PartNumber: &task.partNumber,
                  Body: bytes.NewReader(task.data)}
              uploadOutput, err := client.UploadPart(ctx, partInput)
              if err != nil {
                  errChan <- fmt.Errorf("failed to upload part %d: %v", task.partNumber, err)
                  return
              }
              partsMu.Lock()
              completedParts = append(completedParts, types.CompletedPart{
                  ETag:       uploadOutput.ETag,
                  PartNumber: &task.partNumber,
              })
              partsMu.Unlock()
          }
      }()
  }
  \<close>
  The tasks are taken in the order in which their uploads return, which is the order of
  the appends under the mutex. A worker whose upload fails sends the error and returns,
  so one worker fewer is left; once none is left the remaining tasks are never taken. The
  result is the slice, the errors sent and the tasks left.
\<close>

fun poolWorkers :: "backend \<Rightarrow> int \<Rightarrow> partTask list \<Rightarrow> CompletedPart list \<Rightarrow> error list
    \<Rightarrow> CompletedPart list \<times> error list \<times> partTask list" where
  "poolWorkers client live [] completedParts errs = (completedParts, errs, [])"
| "poolWorkers client live (task # tasks) completedParts errs =
     (if live \<le> 0 then (completedParts, errs, task # tasks)
      else (case UploadPart client (task_partNumber task) (task_data task) of
              Inl e \<Rightarrow> poolWorkers client (live - 1) tasks completedParts (errs @ [e])
            | Inr etag \<Rightarrow>
                poolWorkers client live tasks
                  (completedParts @ [\<lparr>ETag = Some etag, PartNumber = Some (task_partNumber task)\<rparr>])
                  errs))"

text \<open>
  \<^verbatim>\<open>main\<close> of the worker-pool program. The session is created before the part count
  is computed; \<^verbatim>\<open>partChan\<close> has room for \<^verbatim>\<open>partsCount\<close> tasks, so the reader
  blocks for ever when more tasks than that are left with no worker to take them. After
  the loop:
  \<^verbatim>\<open>
  wg.Wait()
  select {
  case err := <-errChan:
      abortMultipart(ctx, client, bucket, key, uploadID)
      log.Fatalf("Upload error: %v", err)
  default:
  }
  _, err = client.CompleteMultipartUpload(ctx, ... Parts: completedParts ...)
  if err != nil {
      log.Fatalf("Failed to complete multipart upload: %v", err)
  }
  \<close>
  \<open>completion\<close> is the order in which the uploads return: with one worker it is the order
  of the tasks, with more it is a permutation of them. The slice is passed to
  \<^verbatim>\<open>CompleteMultipartUpload\<close> as the workers left it.
\<close>

definition run_pool :: "flags \<Rightarrow> stdin \<Rightarrow> backend \<Rightarrow> (partTask list \<Rightarrow> partTask list)
    \<Rightarrow> session_call list \<times> outcome" where
  "run_pool fl input client completion =
     (case validateFlags_pool fl of
        Inl x \<Rightarrow> ([], x)
      | Inr fl' \<Rightarrow>
          (case parseS3URI (hd (flag_args fl')) of
             Inl e \<Rightarrow> ([], Fatal (BadURI e))
           | Inr (bucket, key) \<Rightarrow>
               (case LoadDefaultConfig client of
                  Some e \<Rightarrow> ([], Fatal (ConfigLoadFailed e))
                | None \<Rightarrow>
                    (case CreateMultipartUpload client bucket key of
                       Inl e \<Rightarrow> ([Create bucket key], Fatal (CreateFailed e))
                     | Inr uploadID \<Rightarrow>
                         (let partSize = int64 (int64 (flag_partSize fl' * 1024) * 1024)
                          in case calculatePartsCount_seq (flag_inputSize fl') partSize of
                               Inl p \<Rightarrow> ([Create bucket key], Panicked p)
                             | Inr partsCount \<Rightarrow>
                                 if partsCount < 0 \<or> partSize < 0
                                 then ([Create bucket key], Panicked MakeSliceLen)
                                 else
                                   (case readAll partSize 1 input of
                                      (tasks, failed, _) \<Rightarrow>
                                        (case poolWorkers client (flag_concurrency fl')
                                                (if flag_concurrency fl' = 1 then tasks
                                                 else completion tasks) [] [] of
                                           (completedParts, errs, left) \<Rightarrow>
                                             if partsCount < int (length left)
                                             then ([Create bucket key], Hang)
                                             else if failed
                                             then ([Create bucket key, Abort], Fatal ReadInputFailed)
                                             else if errs \<noteq> []
                                             then ([Create bucket key, Abort],
                                                   Fatal (UploadFailed (hd errs)))
                                             else
                                               (case CompleteMultipartUpload client completedParts of
                                                  Some e \<Rightarrow>
                                                    ([Create bucket key, Complete completedParts],
                                                     Fatal (CompleteFailed e))
                                                | None \<Rightarrow>
                                                    ([Create bucket key, Complete completedParts],
                                                     Completed)))))))))"

subsection \<open>Concrete inputs\<close>

text \<open>
  A backend that accepts every call, and the command line
  \<^verbatim>\<open>tinyups3 --inputSize=10485760 s3://bucket/key\<close> (part size 5 MB, two parts).
\<close>

definition accepting :: backend where
  "accepting = \<lparr>LoadDefaultConfig = None,
                 CreateMultipartUpload = (\<lambda>bucket key. Inr ''upload-id''),
                 UploadPart = (\<lambda>n body. Inr ''etag''),
                 CompleteMultipartUpload = (\<lambda>parts. None),
                 AbortMultipartUpload = None\<rparr>"

definition ten_megabytes :: flags where
  "ten_megabytes = \<lparr>flag_partSize = 5, flag_inputSize = 10485760, flag_concurrency = 1,
                     flag_args = [''s3://bucket/key'']\<rparr>"

subsection \<open>Auxiliary notions of the properties\<close>

text \<open>
  A task is a well-formed chunk of an input of \<open>inputSize\<close> bytes when its size field is
  the length of its data and the data is as long as a part, or as what is left of the
  input at its part number when that is less.
\<close>

definition chunk_ok :: "int \<Rightarrow> int \<Rightarrow> partUpload \<Rightarrow> bool" where
  "chunk_ok inputSize partSize t \<longleftrightarrow>
     psize t = int (length (data t))
   \<and> int (length (data t)) = min partSize (inputSize - (partNumber t - 1) * partSize)"

text \<open>
  Targets that \<^verbatim>\<open>url.Parse\<close> leaves as they are: a bucket made of letters, digits,
  \<^verbatim>\<open>-\<close>, \<^verbatim>\<open>.\<close> and \<^verbatim>\<open>_\<close>, and a key with no \<^verbatim>\<open>%\<close>, \<^verbatim>\<open>?\<close> or
  \<^verbatim>\<open>#\<close> and no ASCII control byte; neither is empty.
\<close>

definition bucketChar :: "char \<Rightarrow> bool" where
  "bucketChar c \<longleftrightarrow> isLetter c \<or> isDigit c \<or> c \<in> set [CHR ''-'', CHR ''.'', CHR ''_'']"

definition plainBucket :: "string \<Rightarrow> bool" where
  "plainBucket b \<longleftrightarrow> b \<noteq> [] \<and> list_all bucketChar b"

definition keyChar :: "char \<Rightarrow> bool" where
  "keyChar c \<longleftrightarrow> c \<notin> set [CHR ''%'', CHR ''?'', CHR ''#''] \<and> \<not> (byte_of c < 32 \<or> byte_of c = 127)"

definition plainKey :: "string \<Rightarrow> bool" where
  "plainKey k \<longleftrightarrow> k \<noteq> [] \<and> list_all keyChar k"


definition twelve_megabytes :: stdin where
  "twelve_megabytes = \<lparr>pending = replicate 12582912 0, broken = False\<rparr>"

text \<open>
  More inputs for \<open>ten_megabytes\<close>: the declared ten megabytes, eight megabytes followed
  by a clean end of the stream, a stream whose first read fails, the same command line
  with \<^verbatim>\<open>--concurrency=0\<close>, and the manifest of two parts.
\<close>

definition ten_megabyte_input :: stdin where
  "ten_megabyte_input = \<lparr>pending = replicate 10485760 0, broken = False\<rparr>"

definition eight_megabyte_input :: stdin where
  "eight_megabyte_input = \<lparr>pending = replicate 8388608 0, broken = False\<rparr>"

definition failing_input :: stdin where
  "failing_input = \<lparr>pending = [], broken = True\<rparr>"

definition no_workers :: flags where
  "no_workers = \<lparr>flag_partSize = 5, flag_inputSize = 10485760, flag_concurrency = 0,
                  flag_args = [''s3://bucket/key'']\<rparr>"

definition two_parts :: "CompletedPart list" where
  "two_parts = [\<lparr>ETag = Some ''etag'', PartNumber = Some 1\<rparr>,
                \<lparr>ETag = Some ''etag'', PartNumber = Some 2\<rparr>]"

text \<open>
  The command line \<^verbatim>\<open>tinyups3 --concurrency=2 --inputSize=10485760 s3://bucket/key\<close>.
\<close>

definition two_workers :: flags where
  "two_workers = \<lparr>flag_partSize = 5, flag_inputSize = 10485760, flag_concurrency = 2,
                   flag_args = [''s3://bucket/key'']\<rparr>"

section \<open>Properties\<close>

subsection \<open>Machine integers in range\<close>

lemma int64_id: "- (2 ^ 63) \<le> x \<Longrightarrow> x < 2 ^ 63 \<Longrightarrow> int64 x = x"
  by (simp add: int64_def)

lemma int32_id: "- (2 ^ 31) \<le> x \<Longrightarrow> x < 2 ^ 31 \<Longrightarrow> int32 x = x"
  by (simp add: int32_def)

lemma sdiv_pos: "0 < a \<Longrightarrow> 0 < b \<Longrightarrow> (a::int) sdiv b = a div b"
  by (simp add: signed_divide_int_def)

lemma smod_pos: "0 < a \<Longrightarrow> 0 < b \<Longrightarrow> (a::int) smod b = a mod b"
  by (simp add: signed_modulo_int_def)

subsection \<open>The number of parts\<close>

lemma count_bound:
  assumes "0 < a" "a < 2 ^ 63" "0 < b" "(a::int) mod b \<noteq> 0"
  shows "a div b + 1 < 2 ^ 63"
proof -
  have "b \<noteq> 1" using assms by auto
  then have "2 \<le> b" using assms by simp
  then have "a div b \<le> a div 2" using assms zdiv_mono2[of a 2 b] by simp
  then show ?thesis using assms by simp
qed

lemma ceil_div:
  assumes "0 < (b::int)"
  shows "\<lceil>real_of_int a / real_of_int b\<rceil> = a div b + (if a mod b = 0 then 0 else 1)"
proof -
  have "\<lceil>real_of_int a / real_of_int b\<rceil> = - ((- a) div b)"
    using floor_divide_of_int_eq[of "- a" b] by (simp add: ceiling_def)
  also have "\<dots> = a div b + (if a mod b = 0 then 0 else 1)"
    using assms by (simp add: zdiv_zminus1_eq_if)
  finally show ?thesis .
qed

lemma calc_eq:
  assumes "0 < inputSize" "inputSize < 2 ^ 63" "0 < partSize" "partSize < 2 ^ 63"
  shows "calculatePartsCount inputSize partSize =
           Inr (inputSize div partSize + (if inputSize mod partSize = 0 then 0 else 1))"
proof -
  have q: "0 \<le> inputSize div partSize" "inputSize div partSize \<le> inputSize"
    using assms by (simp_all add: pos_imp_zdiv_nonneg_iff zdiv_mono2[of inputSize 1 partSize, simplified])
  have q64: "int64 (inputSize div partSize) = inputSize div partSize"
    using q assms by (intro int64_id) auto
  show ?thesis
  proof (cases "inputSize mod partSize = 0")
    case True
    then show ?thesis using assms q64
      by (simp add: calculatePartsCount_def sdiv_pos smod_pos)
  next
    case False
    then have "inputSize div partSize + 1 < 2 ^ 63"
      using count_bound assms by blast
    then have "int64 (inputSize div partSize + 1) = inputSize div partSize + 1"
      using q by (intro int64_id) auto
    then show ?thesis using assms q64 False
      by (simp add: calculatePartsCount_def sdiv_pos smod_pos)
  qed
qed

lemma calc_seq_eq:
  assumes "0 < inputSize" "inputSize < 2 ^ 63" "0 < partSize" "partSize < 2 ^ 63"
  shows "calculatePartsCount_seq inputSize partSize =
           Inr (inputSize div partSize + (if inputSize mod partSize = 0 then 0 else 1))"
proof -
  have q: "0 \<le> inputSize div partSize" "inputSize div partSize \<le> inputSize"
    using assms by (simp_all add: pos_imp_zdiv_nonneg_iff zdiv_mono2[of inputSize 1 partSize, simplified])
  have q64: "int64 (inputSize div partSize) = inputSize div partSize"
    using q assms by (intro int64_id) auto
  show ?thesis
  proof (cases "inputSize mod partSize = 0")
    case True
    have "int64 (int64 (inputSize div partSize + 1) - 1) = int64 (inputSize div partSize)"
      by (simp add: int64_def mod_simps add.commute)
    then show ?thesis using assms q64 True
      by (simp add: calculatePartsCount_seq_def sdiv_pos smod_pos)
  next
    case False
    then have "inputSize div partSize + 1 < 2 ^ 63"
      using count_bound assms by blast
    then have "int64 (inputSize div partSize + 1) = inputSize div partSize + 1"
      using q by (intro int64_id) auto
    then show ?thesis using assms q64 False
      by (simp add: calculatePartsCount_seq_def sdiv_pos smod_pos)
  qed
qed

lemma count_ge1:
  assumes "0 < (a::int)" "0 < b"
  shows "1 \<le> a div b + (if a mod b = 0 then 0 else 1)"
proof (cases "a mod b = 0")
  case True
  then have "b dvd a" by auto
  then have "b \<le> a" using assms by (simp add: zdvd_imp_le)
  then have "0 < a div b" using assms by (simp add: pos_imp_zdiv_pos_iff)
  then have "1 \<le> a div b" by simp
  then show ?thesis using True by simp
next
  case False
  then show ?thesis using assms by (simp add: pos_imp_zdiv_nonneg_iff)
qed

lemma count_le1:
  assumes "0 < (a::int)" "a \<le> b"
  shows "a div b + (if a mod b = 0 then 0 else 1) = 1"
proof (cases "a = b")
  case True
  then show ?thesis using assms by simp
next
  case False
  then have "a < b" using assms by simp
  then show ?thesis using assms by simp
qed

text \<open>
  C3. For a positive input size and a positive part size (values of \<^verbatim>\<open>int64\<close> and
  \<^verbatim>\<open>int\<close>), the part count of either program is
  \<open>inputSize div partSize\<close> plus one when the remainder is not zero, which is the
  ceiling of the quotient; it is 1 when the input fits one part, and at least 1 always.
  No division panics and no count wraps around.
\<close>

theorem parts_count_formula:
  assumes "0 < inputSize" "inputSize < 2 ^ 63" "0 < partSize" "partSize < 2 ^ 63"
  shows "calculatePartsCount inputSize partSize =
           Inr (inputSize div partSize + (if inputSize mod partSize = 0 then 0 else 1))
       \<and> calculatePartsCount_seq inputSize partSize = calculatePartsCount inputSize partSize
       \<and> calculatePartsCount inputSize partSize
           = Inr \<lceil>real_of_int inputSize / real_of_int partSize\<rceil>
       \<and> (inputSize \<le> partSize \<longrightarrow> calculatePartsCount inputSize partSize = Inr 1)
       \<and> (\<exists>n. calculatePartsCount inputSize partSize = Inr n \<and> 1 \<le> n)"
  using assms calc_eq[OF assms] calc_seq_eq[OF assms] ceil_div[of partSize inputSize]
    count_ge1[of inputSize partSize] count_le1[of inputSize partSize]
  by simp

theorem parts_count_formula_witness:
  "calculatePartsCount 11534336 5242880 = Inr 3
   \<and> calculatePartsCount_seq 11534336 5242880 = Inr 3
   \<and> calculatePartsCount 1 5242880 = Inr 1"
  using parts_count_formula[of 11534336 5242880] parts_count_formula[of 1 5242880]
  by simp

subsection \<open>The collector's slots\<close>

lemma storePart_length:
  "storePart completedParts p = Inr stored \<Longrightarrow> length stored = length completedParts"
  by (auto simp: storePart_def Let_def split: option.splits if_splits)

text \<open>
  C10. A successful result whose part number is outside \<open>1..len(completedParts)\<close> is
  dropped: the collector counts it as one of its \<open>partsCount\<close> results and goes on
  with the slots unchanged. A result in range changes the slot \<open>n - 1\<close> and nothing
  else; the slice keeps its length either way, so no store is out of range.
\<close>

theorem collector_discards_out_of_range:
  assumes "err result = None" and "PartNumber (part result) = Some n" and "i < partsCount"
  shows "(n < 1 \<or> int (length completedParts) < n \<longrightarrow>
            storePart completedParts (part result) = Inr completedParts
          \<and> collector partsCount i (result # arriving) completedParts
              = collector partsCount (i + 1) arriving completedParts)
       \<and> (1 \<le> n \<and> n \<le> int (length completedParts) \<longrightarrow>
            storePart completedParts (part result)
              = Inr (completedParts[nat (n - 1) := part result])
          \<and> nat (n - 1) < length completedParts)
       \<and> (\<exists>stored. storePart completedParts (part result) = Inr stored
            \<and> length stored = length completedParts)"
  using assms by (auto simp: storePart_def Let_def)

theorem collector_discards_out_of_range_witness:
  "collector 2 0 [\<lparr>part = \<lparr>ETag = Some ''a'', PartNumber = Some 3\<rparr>, err = None\<rparr>]
       [zeroPart, zeroPart]
     = Blocked [zeroPart, zeroPart]
   \<and> storePart [zeroPart, zeroPart] \<lparr>ETag = Some ''a'', PartNumber = Some 2\<rparr>
     = Inr [zeroPart, \<lparr>ETag = Some ''a'', PartNumber = Some 2\<rparr>]"
  using collector_discards_out_of_range[of "\<lparr>part = \<lparr>ETag = Some ''a'', PartNumber = Some 3\<rparr>, err = None\<rparr>"
      3 0 2 "[zeroPart, zeroPart]" "[]"]
    collector_discards_out_of_range[of "\<lparr>part = \<lparr>ETag = Some ''a'', PartNumber = Some 2\<rparr>, err = None\<rparr>"
      2 0 2 "[zeroPart, zeroPart]" "[]"]
  by simp

subsection \<open>The reader on an input that is long enough\<close>

lemma ceil_bounds:
  assumes "0 < (a::int)" "0 < b" "c = a div b + (if a mod b = 0 then 0 else 1)"
  shows "(c - 1) * b < a" "a \<le> c * b"
proof -
  have e: "a = (a div b) * b + a mod b" by simp
  have m: "0 \<le> a mod b" "a mod b < b" using assms by simp_all
  show "(c - 1) * b < a"
  proof (cases "a mod b = 0")
    case True
    then have "(c - 1) * b = a - b" using assms e by (simp add: algebra_simps)
    then show ?thesis using assms by simp
  next
    case False
    then have "(c - 1) * b = a - a mod b" using assms e by (simp add: algebra_simps)
    then show ?thesis using m False by simp
  qed
  show "a \<le> c * b"
  proof (cases "a mod b = 0")
    case True
    then show ?thesis using assms e by simp
  next
    case False
    then have "c * b = a - a mod b + b" using assms e by (simp add: algebra_simps)
    then show ?thesis using m by simp
  qed
qed

lemma readLoop_full:
  assumes P: "0 < partSize" "partSize < 2 ^ 63"
    and S: "0 < inputSize" "inputSize < 2 ^ 63"
    and C: "partsCount = inputSize div partSize + (if inputSize mod partSize = 0 then 0 else 1)"
           "partsCount < 2 ^ 31 - 1"
  shows "1 \<le> pn \<Longrightarrow> pn \<le> partsCount + 1 \<Longrightarrow> k = nat (partsCount + 1 - pn)
     \<Longrightarrow> inputSize - (pn - 1) * partSize \<le> int (length (pending r))
     \<Longrightarrow> \<exists>ts. readLoop inputSize partSize partsCount pn r
            = (ts, LoopDone, r\<lparr>pending := drop (nat (inputSize - (pn - 1) * partSize)) (pending r)\<rparr>)
          \<and> concat (map data ts) = take (nat (inputSize - (pn - 1) * partSize)) (pending r)
          \<and> map partNumber ts = [pn..partsCount]
          \<and> (\<forall>t\<in>set ts. chunk_ok inputSize partSize t)"
proof (induction k arbitrary: pn r)
  case 0
  then have pn: "pn = partsCount + 1" by simp
  have le: "inputSize \<le> partsCount * partSize"
    using ceil_bounds(2)[OF S(1) P(1) C(1)] .
  then have z: "nat (inputSize - (pn - 1) * partSize) = 0" using pn by simp
  have c32: "int32 partsCount = partsCount"
    using C(2) count_ge1[OF S(1) P(1)] C(1) by (intro int32_id) auto
  show ?case
    using pn c32 le by (subst readLoop.simps) simp
next
  case (Suc k)
  then have pn: "1 \<le> pn" "pn \<le> partsCount" by simp_all
  have c32: "int32 partsCount = partsCount"
    using C(2) pn by (intro int32_id) auto
  have p32: "int32 (pn - 1) = pn - 1" "int32 (pn + 1) = pn + 1"
    using C(2) pn by (auto intro!: int32_id)
  have "(pn - 1) * partSize \<le> (partsCount - 1) * partSize"
    using pn P(1) by (intro mult_right_mono) auto
  then have lt: "(pn - 1) * partSize < inputSize"
    using ceil_bounds(1)[OF S(1) P(1) C(1)] by simp
  have ge: "0 \<le> (pn - 1) * partSize" using pn P(1) by simp
  have m64: "int64 ((pn - 1) * partSize) = (pn - 1) * partSize"
    using lt ge S(2) by (intro int64_id) auto
  define rem where "rem = inputSize - (pn - 1) * partSize"
  have rem: "0 < rem" "rem \<le> inputSize" "rem \<le> int (length (pending r))"
    using lt ge Suc.prems by (simp_all add: rem_def)
  have r64: "int64 rem = rem" using rem S(2) by (intro int64_id) auto
  define readSize where "readSize = (if rem < partSize then rem else partSize)"
  have rs: "0 < readSize" "readSize \<le> rem" "readSize \<le> partSize" "readSize = min partSize rem"
    using rem P(1) by (auto simp: readSize_def)
  define r' where "r' = r\<lparr>pending := drop (nat readSize) (pending r)\<rparr>"
  have rf: "ReadFull r (nat readSize) = (take (nat readSize) (pending r), None, r')"
    using rs rem by (simp add: ReadFull_def r'_def)
  have len: "length (take (nat readSize) (pending r)) = nat readSize"
    using rs rem by simp
  have rem': "inputSize - (pn + 1 - 1) * partSize = rem - partSize"
    by (simp add: rem_def algebra_simps)
  have "\<exists>ts. readLoop inputSize partSize partsCount (pn + 1) r'
            = (ts, LoopDone, r'\<lparr>pending := drop (nat (inputSize - (pn + 1 - 1) * partSize)) (pending r')\<rparr>)
          \<and> concat (map data ts) = take (nat (inputSize - (pn + 1 - 1) * partSize)) (pending r')
          \<and> map partNumber ts = [pn + 1..partsCount]
          \<and> (\<forall>t\<in>set ts. chunk_ok inputSize partSize t)"
  proof (rule Suc.IH)
    show "1 \<le> pn + 1" "pn + 1 \<le> partsCount + 1" using pn by simp_all
    show "k = nat (partsCount + 1 - (pn + 1))" using Suc.prems by simp
    show "inputSize - (pn + 1 - 1) * partSize \<le> int (length (pending r'))"
      unfolding rem' using rem rs by (auto simp: r'_def readSize_def)
  qed
  then obtain ts where ts:
    "readLoop inputSize partSize partsCount (pn + 1) r'
       = (ts, LoopDone, r'\<lparr>pending := drop (nat (rem - partSize)) (pending r')\<rparr>)"
    "concat (map data ts) = take (nat (rem - partSize)) (pending r')"
    "map partNumber ts = [pn + 1..partsCount]"
    "\<forall>t\<in>set ts. chunk_ok inputSize partSize t"
    unfolding rem' by blast
  define task where "task = \<lparr>partNumber = pn, data = take (nat readSize) (pending r),
                             psize = int (nat readSize)\<rparr>"
  have step: "readLoop inputSize partSize partsCount pn r
       = (task # ts, LoopDone, r'\<lparr>pending := drop (nat (rem - partSize)) (pending r')\<rparr>)"
    apply (subst readLoop.simps)
    using pn c32 p32 m64 r64[unfolded rem_def] rs(1) rf ts(1) len P(1)
    apply (simp add: Let_def rem_def[symmetric] readSize_def[symmetric] task_def)
    done
  have dropeq: "drop (nat (rem - partSize)) (drop (nat readSize) (pending r)) = drop (nat rem) (pending r)"
  proof -
    have "nat (rem - partSize) + nat readSize = nat rem"
      using rs(1) rem(1) P(1) by (cases "rem < partSize") (simp_all add: readSize_def)
    then show ?thesis by (simp add: add.commute)
  qed
  have takeeq: "take (nat readSize) (pending r) @ take (nat (rem - partSize)) (drop (nat readSize) (pending r))
       = take (nat rem) (pending r)"
  proof (cases "rem < partSize")
    case True
    then show ?thesis by (simp add: readSize_def)
  next
    case False
    then have "nat rem = nat partSize + nat (rem - partSize)" using P(1) by simp
    then show ?thesis using False by (simp add: readSize_def take_add)
  qed
  have "chunk_ok inputSize partSize task"
    using rs rem by (simp add: chunk_ok_def task_def rem_def)
  then show ?case
    using step ts dropeq takeeq pn
    by (simp add: r'_def rem_def[symmetric] task_def upto_rec1[of pn partsCount])
qed


lemma chunks_from_start:
  assumes P: "0 < partSize" "partSize < 2 ^ 63"
    and S: "0 < inputSize" "inputSize < 2 ^ 63"
    and C: "calculatePartsCount inputSize partSize = Inr partsCount" "partsCount < 2 ^ 31 - 1"
    and L: "nat inputSize \<le> length (pending r)"
  shows "\<exists>ts. readLoop inputSize partSize partsCount 1 r
            = (ts, LoopDone, r\<lparr>pending := drop (nat inputSize) (pending r)\<rparr>)
          \<and> concat (map data ts) = take (nat inputSize) (pending r)
          \<and> map partNumber ts = [1..partsCount]
          \<and> (\<forall>t\<in>set ts. chunk_ok inputSize partSize t)"
proof -
  have c: "partsCount = inputSize div partSize + (if inputSize mod partSize = 0 then 0 else 1)"
    using calc_eq[OF S P] C(1) by simp
  have "1 \<le> partsCount" using count_ge1[OF S(1) P(1)] c by simp
  then show ?thesis
    using readLoop_full[OF P S c C(2), of 1 "nat partsCount" r] L by simp
qed




subsection \<open>The part numbers of the reader and the slots of the collector\<close>

lemma readLoop_step:
  assumes "readLoop inputSize partSize partsCount pn r = (ts, x, r')"
  shows "ts = []
       \<or> (pn \<le> int32 partsCount \<and> (\<exists>task. ts = [task] \<and> partNumber task = pn))
       \<or> (pn \<le> int32 partsCount
            \<and> (\<exists>task ts' r1. ts = task # ts' \<and> partNumber task = pn
                  \<and> length (pending r1) < length (pending r)
                  \<and> readLoop inputSize partSize partsCount (int32 (pn + 1)) r1 = (ts', x, r')))"
  using assms
  apply (subst (asm) readLoop.simps)
  apply (auto simp: Let_def ReadFull_def split: if_splits prod.splits)
  done

lemma readLoop_numbers:
  assumes C: "partsCount < 2 ^ 31 - 1" "0 \<le> partsCount"
  shows "1 \<le> pn \<Longrightarrow> readLoop inputSize partSize partsCount pn r = (ts, x, r')
     \<Longrightarrow> map partNumber ts = [pn..pn + int (length ts) - 1]
         \<and> (ts \<noteq> [] \<longrightarrow> pn + int (length ts) - 1 \<le> partsCount)"
proof (induction "length (pending r)" arbitrary: pn r ts rule: less_induct)
  case less
  have c32: "int32 partsCount = partsCount"
    using C by (intro int32_id) auto
  consider (nil) "ts = []"
    | (one) task where "pn \<le> partsCount" "ts = [task]" "partNumber task = pn"
    | (more) task ts' r1 where "pn \<le> partsCount" "ts = task # ts'" "partNumber task = pn"
        "length (pending r1) < length (pending r)"
        "readLoop inputSize partSize partsCount (int32 (pn + 1)) r1 = (ts', x, r')"
    using readLoop_step[OF less.prems(2)] c32 by auto
  then show ?case
  proof cases
    case nil
    then show ?thesis by simp
  next
    case one
    then show ?thesis by simp
  next
    case more
    have p32: "int32 (pn + 1) = pn + 1"
      using more(1) C less.prems(1) by (intro int32_id) auto
    have ih: "map partNumber ts' = [pn + 1..pn + 1 + int (length ts') - 1]
         \<and> (ts' \<noteq> [] \<longrightarrow> pn + 1 + int (length ts') - 1 \<le> partsCount)"
      using less.hyps[OF more(4) _ more(5)[unfolded p32]] less.prems(1) by simp
    have "[pn..pn + int (length ts')] = pn # [pn + 1..pn + int (length ts')]"
      by (simp add: upto_rec1)
    then show ?thesis using ih more(1-3) by (cases "ts' = []") (simp_all add: add.commute)
  qed
qed

lemma collector_Collected:
  "collector pc i rs cps = Collected m \<Longrightarrow>
     nat (pc - i) \<le> length rs
   \<and> (\<forall>r\<in>set (take (nat (pc - i)) rs). err r = None)
   \<and> collector pc i (take (nat (pc - i)) rs) cps = Collected m"
proof (induction rs arbitrary: i cps)
  case Nil
  then show ?case by (simp split: if_splits)
next
  case (Cons r rs)
  show ?case
  proof (cases "i < pc")
    case False
    then show ?thesis using Cons.prems by simp
  next
    case True
    then obtain stored where st: "err r = None" "storePart cps (part r) = Inr stored"
      "collector pc (i + 1) rs stored = Collected m"
      using Cons.prems by (auto split: option.splits sum.splits)
    have n: "nat (pc - i) = Suc (nat (pc - (i + 1)))" using True by simp
    show ?thesis using Cons.IH[OF st(3)] st True unfolding n by simp
  qed
qed

lemma collector_slots:
  assumes "\<forall>r\<in>set rs. err r = None
             \<and> (\<exists>n. PartNumber (part r) = Some n \<and> 1 \<le> n \<and> n \<le> int (length cps))"
    and "int (length rs) = pc - i"
    and "distinct (map (\<lambda>r. PartNumber (part r)) rs)"
  shows "\<exists>m. collector pc i rs cps = Collected m \<and> length m = length cps
          \<and> (\<forall>r\<in>set rs. \<forall>n. PartNumber (part r) = Some n \<longrightarrow> m ! nat (n - 1) = part r)
          \<and> (\<forall>k<length cps. (\<forall>r\<in>set rs. PartNumber (part r) \<noteq> Some (int k + 1)) \<longrightarrow> m ! k = cps ! k)"
  using assms
proof (induction rs arbitrary: i cps)
  case Nil
  then show ?case by simp
next
  case (Cons r rs)
  obtain n where n: "err r = None" "PartNumber (part r) = Some n" "1 \<le> n" "n \<le> int (length cps)"
    using Cons.prems(1) by auto
  define cps1 where "cps1 = cps[nat (n - 1) := part r]"
  have st: "storePart cps (part r) = Inr cps1"
    using n by (simp add: storePart_def cps1_def)
  have lt: "i < pc" using Cons.prems(2) by simp
  have len1: "length cps1 = length cps" by (simp add: cps1_def)
  have "\<exists>m. collector pc (i + 1) rs cps1 = Collected m \<and> length m = length cps1
          \<and> (\<forall>r\<in>set rs. \<forall>n. PartNumber (part r) = Some n \<longrightarrow> m ! nat (n - 1) = part r)
          \<and> (\<forall>k<length cps1. (\<forall>r\<in>set rs. PartNumber (part r) \<noteq> Some (int k + 1)) \<longrightarrow> m ! k = cps1 ! k)"
  proof (rule Cons.IH)
    show "\<forall>r\<in>set rs. err r = None
             \<and> (\<exists>n. PartNumber (part r) = Some n \<and> 1 \<le> n \<and> n \<le> int (length cps1))"
      using Cons.prems(1) len1 by simp
    show "int (length rs) = pc - (i + 1)" using Cons.prems(2) by simp
    show "distinct (map (\<lambda>r. PartNumber (part r)) rs)" using Cons.prems(3) by simp
  qed
  then obtain m where m: "collector pc (i + 1) rs cps1 = Collected m" "length m = length cps1"
    "\<forall>r\<in>set rs. \<forall>n. PartNumber (part r) = Some n \<longrightarrow> m ! nat (n - 1) = part r"
    "\<forall>k<length cps1. (\<forall>r\<in>set rs. PartNumber (part r) \<noteq> Some (int k + 1)) \<longrightarrow> m ! k = cps1 ! k"
    by blast
  have col: "collector pc i (r # rs) cps = Collected m"
    using lt n(1) st m(1) by simp
  have fresh: "\<forall>r'\<in>set rs. PartNumber (part r') \<noteq> Some n"
    using Cons.prems(3) n(2) by (auto simp: image_iff)
  have k: "nat (n - 1) < length cps1" "int (nat (n - 1)) + 1 = n" using n len1 by simp_all
  have own: "m ! nat (n - 1) = part r"
    using m(4) k fresh by (simp add: cps1_def)
  have others: "\<forall>k<length cps. (\<forall>r'\<in>set (r # rs). PartNumber (part r') \<noteq> Some (int k + 1))
                  \<longrightarrow> m ! k = cps ! k"
  proof (intro allI impI)
    fix j assume j: "j < length cps" "\<forall>r'\<in>set (r # rs). PartNumber (part r') \<noteq> Some (int j + 1)"
    then have "j \<noteq> nat (n - 1)" using n by auto
    then have "cps1 ! j = cps ! j" by (simp add: cps1_def)
    then show "m ! j = cps ! j" using m(4) j len1 by simp
  qed
  show ?case using col m(2,3) len1 own others n(2) by auto
qed

lemma session_Complete:
  assumes "Complete m \<in> set (fst (session inputSize partSize partsCount input client arrival))"
  shows "0 \<le> partsCount
     \<and> (\<exists>ts x r'. readLoop inputSize partSize partsCount 1 input = (ts, x, r')
          \<and> collector partsCount 0 (map (worker client) (arrival ts))
               (replicate (nat partsCount) zeroPart) = Collected m)"
  using assms
  by (auto simp: session_def finish_def readErrorOf_def
      split: if_splits prod.splits loop_exit.splits collected.splits option.splits)

lemma validateFlags_keeps:
  "validateFlags fl = Inr fl' \<Longrightarrow>
     flag_partSize fl' = flag_partSize fl \<and> flag_inputSize fl' = flag_inputSize fl
     \<and> flag_args fl' = flag_args fl"
  by (auto simp: validateFlags_def split: if_splits)

lemma run_Complete:
  assumes "Complete m \<in> set (fst (run fl input client arrival))"
  shows "\<exists>partsCount. calculatePartsCount (flag_inputSize fl)
              (int64 (int64 (flag_partSize fl * 1024) * 1024)) = Inr partsCount
     \<and> Complete m \<in> set (fst (session (flag_inputSize fl)
              (int64 (int64 (flag_partSize fl * 1024) * 1024)) partsCount input client arrival))"
  using assms
  by (auto simp: run_def Let_def dest!: validateFlags_keeps
      split: sum.splits prod.splits option.splits)

lemma worker_ok:
  "err (worker client t) = None \<Longrightarrow>
     \<exists>etag. UploadPart client (partNumber t) (take (nat (psize t)) (data t)) = Inr etag
       \<and> part (worker client t) = \<lparr>ETag = Some etag, PartNumber = Some (partNumber t)\<rparr>"
  by (auto simp: worker_def split: sum.splits)

lemma collected_manifest:
  assumes perm: "mset (arrival ts) = mset ts"
    and pos: "0 \<le> partsCount"
    and nums: "map partNumber ts = [1..partsCount]"
    and col: "collector partsCount 0 (map (worker client) (arrival ts))
               (replicate (nat partsCount) zeroPart) = Collected m"
  shows "length m = nat partsCount
     \<and> (\<forall>t\<in>set ts. err (worker client t) = None
            \<and> m ! nat (partNumber t - 1) = part (worker client t))"
proof -
  define rs where "rs = map (worker client) (arrival ts)"
  have len: "length (arrival ts) = length ts" using perm by (rule mset_eq_length)
  have sets: "set (arrival ts) = set ts" using perm by (rule mset_eq_setD)
  have "length (map partNumber ts) = length [1..partsCount]" using nums by simp
  then have lts: "length ts = nat partsCount" by simp
  have lrs: "length rs = nat partsCount" using len lts by (simp add: rs_def)
  have all: "take (nat (partsCount - 0)) rs = rs" using lrs by simp
  have ok: "\<forall>r\<in>set rs. err r = None"
    using collector_Collected[OF col[folded rs_def]] all by simp
  have range: "\<forall>t\<in>set ts. 1 \<le> partNumber t \<and> partNumber t \<le> partsCount"
  proof
    fix t assume "t \<in> set ts"
    then have "partNumber t \<in> set (map partNumber ts)" by simp
    then show "1 \<le> partNumber t \<and> partNumber t \<le> partsCount" unfolding nums by simp
  qed
  have okt: "\<forall>t\<in>set ts. err (worker client t) = None"
    using ok sets by (simp add: rs_def)
  have pn: "\<forall>t\<in>set ts. PartNumber (part (worker client t)) = Some (partNumber t)"
  proof
    fix t assume "t \<in> set ts"
    then have "err (worker client t) = None" using okt by simp
    then show "PartNumber (part (worker client t)) = Some (partNumber t)"
      by (auto simp: worker_def split: sum.splits)
  qed
  have "mset (map partNumber (arrival ts)) = mset (map partNumber ts)"
    using perm by (metis mset_map)
  moreover have "distinct (map partNumber ts)" unfolding nums by simp
  ultimately have dpn: "distinct (map partNumber (arrival ts))"
    by (metis mset_eq_imp_distinct_iff)
  have "map (\<lambda>r. PartNumber (part r)) rs = map (\<lambda>t. Some (partNumber t)) (arrival ts)"
    using pn sets by (simp add: rs_def)
  also have "\<dots> = map Some (map partNumber (arrival ts))" by simp
  finally have drs: "distinct (map (\<lambda>r. PartNumber (part r)) rs)"
    using dpn by (simp add: distinct_map del: map_map)
  have pre: "\<forall>r\<in>set rs. err r = None
      \<and> (\<exists>n. PartNumber (part r) = Some n \<and> 1 \<le> n
               \<and> n \<le> int (length (replicate (nat partsCount) zeroPart)))"
    using okt pn range sets by (auto simp: rs_def)
  have cnt: "int (length rs) = partsCount - 0"
    using lrs pos by simp
  obtain m' where m': "collector partsCount 0 rs (replicate (nat partsCount) zeroPart) = Collected m'"
    "length m' = length (replicate (nat partsCount) zeroPart)"
    "\<forall>r\<in>set rs. \<forall>n. PartNumber (part r) = Some n \<longrightarrow> m' ! nat (n - 1) = part r"
    using collector_slots[OF pre cnt drs] by blast
  have mm: "m' = m" using m'(1) col by (simp add: rs_def)
  have "\<forall>t\<in>set ts. m ! nat (partNumber t - 1) = part (worker client t)"
    using m'(3) pn sets by (auto simp: rs_def mm)
  then show ?thesis using m'(2) mm okt by simp
qed

text \<open>
  The manifest of the concurrent program of \<^verbatim>\<open>main.go\<close>. Whatever the flags (any
  concurrency) and whatever the order in which the results of the workers reach the
  collector (any permutation of the dispatched tasks), a manifest that is passed to
  \<^verbatim>\<open>CompleteMultipartUpload\<close> lists the part numbers \<open>1, 2, ..., partsCount\<close> in
  this order, without gap or duplicate: the slot \<open>k\<close> holds the completed part number
  \<open>k + 1\<close> with the tag its upload returned. The part count is one that the
  \<^verbatim>\<open>int32\<close> part number can hold.
\<close>

theorem manifest_in_part_order:
  assumes perm: "\<forall>ts. mset (arrival ts) = mset ts"
    and count: "calculatePartsCount (flag_inputSize fl)
                  (int64 (int64 (flag_partSize fl * 1024) * 1024)) = Inr partsCount"
    and small: "partsCount < 2 ^ 31 - 1"
    and completes: "Complete m \<in> set (fst (run fl input client arrival))"
  shows "map PartNumber m = map Some [1..partsCount]
     \<and> (\<forall>k<length m. \<exists>body etag. UploadPart client (int k + 1) body = Inr etag
            \<and> m ! k = \<lparr>ETag = Some etag, PartNumber = Some (int k + 1)\<rparr>)"
proof -
  define partSize where "partSize = int64 (int64 (flag_partSize fl * 1024) * 1024)"
  have "Complete m \<in> set (fst (session (flag_inputSize fl) partSize partsCount input client arrival))"
    using run_Complete[OF completes] count by (simp add: partSize_def)
  then obtain ts x r' where s: "0 \<le> partsCount"
    "readLoop (flag_inputSize fl) partSize partsCount 1 input = (ts, x, r')"
    "collector partsCount 0 (map (worker client) (arrival ts))
        (replicate (nat partsCount) zeroPart) = Collected m"
    using session_Complete by blast
  have num: "map partNumber ts = [1..1 + int (length ts) - 1]"
    "ts \<noteq> [] \<longrightarrow> 1 + int (length ts) - 1 \<le> partsCount"
    using readLoop_numbers[OF small s(1) _ s(2)] by simp_all
  have le: "int (length ts) \<le> partsCount" using num(2) s(1) by (cases "ts = []") auto
  have "nat (partsCount - 0) \<le> length (map (worker client) (arrival ts))"
    using collector_Collected[OF s(3)] by blast
  moreover have "length (arrival ts) = length ts" using perm by (metis mset_eq_length)
  ultimately have ge: "partsCount \<le> int (length ts)" by simp
  have nums: "map partNumber ts = [1..partsCount]" using num(1) le ge by simp
  have man: "length m = nat partsCount"
    "\<forall>t\<in>set ts. err (worker client t) = None
            \<and> m ! nat (partNumber t - 1) = part (worker client t)"
    using collected_manifest[of arrival ts partsCount client m, OF perm[rule_format] s(1) nums s(3)]
    by simp_all
  have slot: "\<exists>body etag. UploadPart client (int k + 1) body = Inr etag
            \<and> m ! k = \<lparr>ETag = Some etag, PartNumber = Some (int k + 1)\<rparr>" if "k < length m" for k
  proof -
    have "int k + 1 \<in> set [1..partsCount]" using that man(1) by simp
    then have "int k + 1 \<in> set (map partNumber ts)" using nums by simp
    then obtain t where t: "t \<in> set ts" "partNumber t = int k + 1" by auto
    then have "err (worker client t) = None" "m ! k = part (worker client t)"
      using man(2) by auto
    then show ?thesis using worker_ok[of client t] t(2) by auto
  qed
  have "map PartNumber m = map Some [1..partsCount]"
  proof (rule nth_equalityI)
    show "length (map PartNumber m) = length (map Some [1..partsCount])"
      using man(1) by simp
    fix i assume "i < length (map PartNumber m)"
    then have i: "i < length m" by simp
    then obtain body etag where "m ! i = \<lparr>ETag = Some etag, PartNumber = Some (int i + 1)\<rparr>"
      using slot by blast
    then show "map PartNumber m ! i = map Some [1..partsCount] ! i"
      using i man(1) by simp
  qed
  then show ?thesis using slot by blast
qed

subsection \<open>Runs on concrete inputs\<close>

lemma parse_bucket_key: "parseS3URI ''s3://bucket/key'' = Inr (''bucket'', ''key'')"
  by code_simp

lemma readLoop_unfold:
  "readLoop inputSize partSize partsCount partNo \<lparr>pending = xs, broken = b\<rparr> =
     (if partNo \<le> int32 partsCount then
        if partSize < 0 then ([], ReaderPanic MakeSliceLen, \<lparr>pending = xs, broken = b\<rparr>)
        else
        (let remainingBytes = int64 (inputSize - int64 (int32 (partNo - 1) * partSize));
             readSize = (if remainingBytes < partSize then remainingBytes else partSize)
         in if readSize < 0 then ([], ReaderPanic SliceBounds, \<lparr>pending = xs, broken = b\<rparr>)
            else (case ReadFull \<lparr>pending = xs, broken = b\<rparr> (nat readSize) of
                    (bytes, e, r') \<Rightarrow>
                      if e = Some ReadFailed then ([], ReadError partNo, r')
                      else if length bytes = 0 then ([], LoopBreak, r')
                      else (let task = \<lparr>partNumber = partNo, data = bytes,
                                          psize = int (length bytes)\<rparr>
                            in if e \<noteq> None then ([task], LoopBreak, r')
                               else (case readLoop inputSize partSize partsCount
                                            (int32 (partNo + 1)) r' of
                                       (ts, x, r'') \<Rightarrow> (task # ts, x, r'')))))
      else ([], LoopDone, \<lparr>pending = xs, broken = b\<rparr>))"
  by (rule readLoop.simps)

lemmas run_eval = run_def validateFlags_def accepting_def
     int64_def int32_def calculatePartsCount_def signed_divide_int_def signed_modulo_int_def
     session_def readLoop_unfold ReadFull_def Let_def worker_def zeroPart_def storePart_def
     finish_def readErrorOf_def numeral_2_eq_2 parse_bucket_key two_parts_def

lemma reversed_arrival:
  "run ten_megabytes ten_megabyte_input accepting rev
     = ([Create ''bucket'' ''key'', Complete two_parts], Completed)"
  by (simp add: run_eval ten_megabytes_def ten_megabyte_input_def)

theorem manifest_in_part_order_witness:
  "Complete two_parts \<in> set (fst (run ten_megabytes ten_megabyte_input accepting rev))
   \<and> map PartNumber two_parts = map Some [1..2]"
proof -
  have c: "calculatePartsCount (flag_inputSize ten_megabytes)
             (int64 (int64 (flag_partSize ten_megabytes * 1024) * 1024)) = Inr 2"
    by (simp add: ten_megabytes_def calculatePartsCount_def int64_def
        signed_divide_int_def signed_modulo_int_def)
  have d: "Complete two_parts \<in> set (fst (run ten_megabytes ten_megabyte_input accepting rev))"
    by (simp add: reversed_arrival)
  have p: "\<forall>ts::partUpload list. mset (rev ts) = mset ts" by simp
  show ?thesis
    using d manifest_in_part_order[of rev ten_megabytes 2 two_parts ten_megabyte_input accepting,
        OF p c _ d]
    by simp
qed

lemma readAll_unfold:
  "readAll partSize partNo \<lparr>pending = xs, broken = b\<rparr> =
     (case ReadFull \<lparr>pending = xs, broken = b\<rparr> (nat partSize) of
        (bytes, e, r') \<Rightarrow>
          if e = Some ReadFailed then ([], True, r')
          else if length bytes = 0 then ([], False, r')
          else (let task = \<lparr>task_partNumber = partNo, task_data = bytes\<rparr>
                in if e \<noteq> None then ([task], False, r')
                   else (case readAll partSize (int32 (partNo + 1)) r' of
                           (ts, failed, r'') \<Rightarrow> (task # ts, failed, r''))))"
  by (rule readAll.simps)

text \<open>
  C2 on the older worker-pool program: with two workers and ten megabytes on standard
  input, when the upload of part 2 returns before the upload of part 1, the manifest passed
  to \<^verbatim>\<open>CompleteMultipartUpload\<close> lists part 2 before part 1. The parts are appended
  in the order of completion and the slice is never sorted.
\<close>

theorem pool_manifest_in_completion_order:
  "run_pool two_workers ten_megabyte_input accepting rev
     = ([Create ''bucket'' ''key'',
         Complete [\<lparr>ETag = Some ''etag'', PartNumber = Some 2\<rparr>,
                   \<lparr>ETag = Some ''etag'', PartNumber = Some 1\<rparr>]], Completed)"
  by (simp add: run_pool_def validateFlags_pool_def two_workers_def ten_megabyte_input_def
      parse_bucket_key accepting_def int64_def int32_def calculatePartsCount_seq_def
      signed_divide_int_def signed_modulo_int_def readAll_unfold ReadFull_def Let_def)

subsection \<open>Invalid arguments\<close>

text \<open>
  C8, as stated, fails: with \<^verbatim>\<open>--concurrency=0\<close> the program opens the session and
  completes the upload.
\<close>

theorem concurrency_zero_is_accepted:
  "run no_workers ten_megabyte_input accepting id
     = ([Create ''bucket'' ''key'', Complete two_parts], Completed)"
  by (simp add: run_eval no_workers_def ten_megabyte_input_def)

text \<open>
  C8, amended. A part size below 5 MB or an input size of zero or less ends the program
  with a fatal error before any remote call. A concurrency below 1 is no error in
  \<^verbatim>\<open>main.go\<close>: it is replaced by 1 and the program runs as with
  \<^verbatim>\<open>--concurrency=1\<close>. The older worker-pool program rejects it.
\<close>

theorem invalid_sizes_fail_early:
  "(flag_partSize fl < 5 \<or> flag_inputSize fl \<le> 0 \<longrightarrow>
       (\<exists>cause. run fl input client arrival = ([], Fatal cause)))
   \<and> (5 \<le> flag_partSize fl \<and> 0 < flag_inputSize fl \<and> length (flag_args fl) = 1
        \<and> flag_concurrency fl < 1 \<longrightarrow>
       validateFlags fl = Inr (fl\<lparr>flag_concurrency := 1\<rparr>)
       \<and> run fl input client arrival = run (fl\<lparr>flag_concurrency := 1\<rparr>) input client arrival)
   \<and> (5 \<le> flag_partSize fl \<and> flag_concurrency fl < 1 \<longrightarrow>
       validateFlags_pool fl = Inl (Fatal ConcurrencyTooSmall))"
  by (auto simp: run_def validateFlags_def validateFlags_pool_def)

theorem invalid_sizes_fail_early_witness:
  "run (ten_megabytes\<lparr>flag_inputSize := 0\<rparr>) ten_megabyte_input accepting id
      = ([], Fatal InputSizeNotPositive)
   \<and> run (ten_megabytes\<lparr>flag_partSize := 4\<rparr>) ten_megabyte_input accepting id
      = ([], Fatal PartSizeTooSmall)
   \<and> validateFlags no_workers = Inr (no_workers\<lparr>flag_concurrency := 1\<rparr>)
   \<and> validateFlags_pool no_workers = Inl (Fatal ConcurrencyTooSmall)"
  using invalid_sizes_fail_early[of "ten_megabytes\<lparr>flag_inputSize := 0\<rparr>" ten_megabyte_input accepting id]
    invalid_sizes_fail_early[of "ten_megabytes\<lparr>flag_partSize := 4\<rparr>" ten_megabyte_input accepting id]
    invalid_sizes_fail_early[of no_workers ten_megabyte_input accepting id]
  by (auto simp: ten_megabytes_def no_workers_def run_def validateFlags_def)

subsection \<open>An input shorter than declared\<close>

lemma readLoop_short:
  assumes P: "0 < partSize" "partSize < 2 ^ 63"
    and S: "0 < inputSize" "inputSize < 2 ^ 63"
    and C: "partsCount = inputSize div partSize + (if inputSize mod partSize = 0 then 0 else 1)"
           "partsCount < 2 ^ 31 - 1"
    and nb: "\<not> broken r0"
  shows "1 \<le> pn \<Longrightarrow> pn \<le> partsCount \<Longrightarrow> k = nat (partsCount + 1 - pn)
     \<Longrightarrow> broken r = broken r0
     \<Longrightarrow> int (length (pending r)) < inputSize - (pn - 1) * partSize
     \<Longrightarrow> \<exists>ts. readLoop inputSize partSize partsCount pn r = (ts, LoopBreak, r\<lparr>pending := []\<rparr>)
          \<and> concat (map data ts) = pending r
          \<and> (\<forall>t\<in>set ts. psize t = int (length (data t)))
          \<and> ((partsCount - pn) * partSize < int (length (pending r))
                \<longrightarrow> map partNumber ts = [pn..partsCount])"
proof (induction k arbitrary: pn r)
  case 0
  then show ?case by simp
next
  case (Suc k)
  note pn = Suc.prems(1,2)
  have c32: "int32 partsCount = partsCount"
    using C(2) pn by (intro int32_id) auto
  have p32: "int32 (pn - 1) = pn - 1" "int32 (pn + 1) = pn + 1"
    using C(2) pn by (auto intro!: int32_id)
  define L where "L = int (length (pending r))"
  define rem where "rem = inputSize - (pn - 1) * partSize"
  have L: "0 \<le> L" "L < rem" using Suc.prems(5) by (simp_all add: L_def rem_def)
  have ge: "0 \<le> (pn - 1) * partSize" using pn P(1) by simp
  have lt: "(pn - 1) * partSize < inputSize" using L by (simp add: rem_def)
  have m64: "int64 ((pn - 1) * partSize) = (pn - 1) * partSize"
    using lt ge S(2) by (intro int64_id) auto
  have rem: "0 < rem" "rem \<le> inputSize" using L ge by (simp_all add: rem_def)
  have r64: "int64 rem = rem" using rem S(2) by (intro int64_id) auto
  define readSize where "readSize = (if rem < partSize then rem else partSize)"
  have rs: "0 < readSize" "readSize \<le> rem" "readSize \<le> partSize"
    using rem P(1) by (auto simp: readSize_def)
  have nbr: "\<not> broken r" using nb Suc.prems(4) by simp
  have span: "0 \<le> (partsCount - pn) * partSize" using pn P(1) by simp
  show ?case
  proof (cases "L < readSize")
    case True
    have rf: "ReadFull r (nat readSize)
        = (pending r, Some (if pending r = [] then EOF else ErrUnexpectedEOF), r\<lparr>pending := []\<rparr>)"
      using True nbr rs by (simp add: ReadFull_def L_def)
    show ?thesis
    proof (cases "pending r = []")
      case True
      have "readLoop inputSize partSize partsCount pn r = ([], LoopBreak, r\<lparr>pending := []\<rparr>)"
        apply (subst readLoop.simps)
        using pn c32 p32 m64 r64[unfolded rem_def] rs(1) rf True P(1)
        apply (simp add: Let_def rem_def[symmetric] readSize_def[symmetric])
        done
      then show ?thesis using True span by simp
    next
      case False
      define task where "task = \<lparr>partNumber = pn, data = pending r,
                                 psize = int (length (pending r))\<rparr>"
      have "readLoop inputSize partSize partsCount pn r = ([task], LoopBreak, r\<lparr>pending := []\<rparr>)"
        apply (subst readLoop.simps)
        using pn c32 p32 m64 r64[unfolded rem_def] rs(1) rf False P(1)
        apply (simp add: Let_def rem_def[symmetric] readSize_def[symmetric] task_def)
        done
      moreover have "map partNumber [task] = [pn..partsCount]"
        if "(partsCount - pn) * partSize < int (length (pending r))"
      proof -
        have "(partsCount - pn) * partSize < partSize"
          using that True rs(3) unfolding L_def by linarith
        then have "partsCount - pn < 1" using P(1) by (simp add: mult_less_cancel_right1)
        then have "partsCount = pn" using pn by simp
        then show ?thesis by (simp add: task_def)
      qed
      ultimately show ?thesis by (auto simp: task_def)
    qed
  next
    case False
    then have full: "readSize = partSize" "partSize < rem"
      using L rs by (auto simp: readSize_def split: if_splits)
    define r1 where "r1 = r\<lparr>pending := drop (nat partSize) (pending r)\<rparr>"
    have rf: "ReadFull r (nat readSize) = (take (nat partSize) (pending r), None, r1)"
      using False full P(1) by (simp add: ReadFull_def r1_def L_def)
    have len: "length (take (nat partSize) (pending r)) = nat partSize"
      using False full P(1) by (simp add: L_def)
    have b: "inputSize \<le> partsCount * partSize"
      using ceil_bounds(2)[OF S(1) P(1) C(1)] .
    have "pn * partSize < inputSize" using full(2) by (simp add: rem_def algebra_simps)
    then have "pn * partSize < partsCount * partSize" using b by simp
    then have pn1: "pn + 1 \<le> partsCount" using P(1) by (simp add: mult_less_cancel_right)
    have L1: "int (length (pending r1)) = L - partSize"
      using False full P(1) by (simp add: r1_def L_def)
    have "\<exists>ts. readLoop inputSize partSize partsCount (pn + 1) r1 = (ts, LoopBreak, r1\<lparr>pending := []\<rparr>)
          \<and> concat (map data ts) = pending r1
          \<and> (\<forall>t\<in>set ts. psize t = int (length (data t)))
          \<and> ((partsCount - (pn + 1)) * partSize < int (length (pending r1))
                \<longrightarrow> map partNumber ts = [pn + 1..partsCount])"
    proof (rule Suc.IH)
      show "1 \<le> pn + 1" using pn by simp
      show "pn + 1 \<le> partsCount" by (rule pn1)
      show "k = nat (partsCount + 1 - (pn + 1))" using Suc.prems(3) by simp
      show "broken r1 = broken r0" using Suc.prems(4) by (simp add: r1_def)
      show "int (length (pending r1)) < inputSize - (pn + 1 - 1) * partSize"
        using L1 L by (simp add: rem_def algebra_simps)
    qed
    then obtain ts where ts:
      "readLoop inputSize partSize partsCount (pn + 1) r1 = (ts, LoopBreak, r1\<lparr>pending := []\<rparr>)"
      "concat (map data ts) = pending r1"
      "\<forall>t\<in>set ts. psize t = int (length (data t))"
      "(partsCount - (pn + 1)) * partSize < int (length (pending r1))
          \<longrightarrow> map partNumber ts = [pn + 1..partsCount]"
      by blast
    define task where "task = \<lparr>partNumber = pn, data = take (nat partSize) (pending r),
                               psize = int (nat partSize)\<rparr>"
    have step: "readLoop inputSize partSize partsCount pn r = (task # ts, LoopBreak, r1\<lparr>pending := []\<rparr>)"
      apply (subst readLoop.simps)
      using pn c32 p32 m64 r64[unfolded rem_def] rs(1) rf ts(1) len P(1)
      apply (simp add: Let_def rem_def[symmetric] readSize_def[symmetric] task_def)
      done
    have nums: "map partNumber (task # ts) = [pn..partsCount]"
      if "(partsCount - pn) * partSize < int (length (pending r))"
    proof -
      have "(partsCount - (pn + 1)) * partSize < int (length (pending r1))"
        using that L1 by (simp add: L_def algebra_simps)
      then have "map partNumber ts = [pn + 1..partsCount]" using ts(4) by simp
      then show ?thesis using pn by (simp add: task_def upto_rec1[of pn partsCount])
    qed
    have "concat (map data (task # ts)) = pending r"
      using ts(2) by (simp add: task_def r1_def)
    moreover have "\<forall>t\<in>set (task # ts). psize t = int (length (data t))"
      using ts(3) len by (simp add: task_def)
    moreover have "r1\<lparr>pending := []\<rparr> = r\<lparr>pending := []\<rparr>" by (simp add: r1_def)
    ultimately show ?thesis using step nums by auto
  qed
qed

lemma all_uploads_collected:
  assumes up: "\<forall>n body. \<exists>etag. UploadPart client n body = Inr etag"
    and perm: "mset (arrival ts) = mset ts"
    and pos: "0 \<le> partsCount"
    and nums: "map partNumber ts = [1..partsCount]"
  shows "\<exists>m. collector partsCount 0 (map (worker client) (arrival ts))
               (replicate (nat partsCount) zeroPart) = Collected m
          \<and> map PartNumber m = map Some [1..partsCount]"
proof -
  define rs where "rs = map (worker client) (arrival ts)"
  have len: "length (arrival ts) = length ts" using perm by (rule mset_eq_length)
  have sets: "set (arrival ts) = set ts" using perm by (rule mset_eq_setD)
  have "length (map partNumber ts) = length [1..partsCount]" using nums by simp
  then have lts: "length ts = nat partsCount" by simp
  have w: "err (worker client t) = None \<and> PartNumber (part (worker client t)) = Some (partNumber t)" for t
  proof -
    obtain etag where "UploadPart client (partNumber t) (take (nat (psize t)) (data t)) = Inr etag"
      using up by blast
    then show ?thesis by (simp add: worker_def)
  qed
  have range: "\<forall>t\<in>set ts. 1 \<le> partNumber t \<and> partNumber t \<le> partsCount"
  proof
    fix t assume "t \<in> set ts"
    then have "partNumber t \<in> set (map partNumber ts)" by simp
    then show "1 \<le> partNumber t \<and> partNumber t \<le> partsCount" unfolding nums by simp
  qed
  have "mset (map partNumber (arrival ts)) = mset (map partNumber ts)"
    using perm by (metis mset_map)
  moreover have "distinct (map partNumber ts)" unfolding nums by simp
  ultimately have dpn: "distinct (map partNumber (arrival ts))"
    by (metis mset_eq_imp_distinct_iff)
  have "map (\<lambda>r. PartNumber (part r)) rs = map Some (map partNumber (arrival ts))"
    using w by (simp add: rs_def)
  then have drs: "distinct (map (\<lambda>r. PartNumber (part r)) rs)"
    using dpn by (simp add: distinct_map del: map_map)
  have pre: "\<forall>r\<in>set rs. err r = None
      \<and> (\<exists>n. PartNumber (part r) = Some n \<and> 1 \<le> n
               \<and> n \<le> int (length (replicate (nat partsCount) zeroPart)))"
    using w range sets by (auto simp: rs_def)
  have cnt: "int (length rs) = partsCount - 0"
    using len lts pos by (simp add: rs_def)
  obtain m where m: "collector partsCount 0 rs (replicate (nat partsCount) zeroPart) = Collected m"
    "length m = length (replicate (nat partsCount) zeroPart)"
    "\<forall>r\<in>set rs. \<forall>n. PartNumber (part r) = Some n \<longrightarrow> m ! nat (n - 1) = part r"
    using collector_slots[OF pre cnt drs] by blast
  have "map PartNumber m = map Some [1..partsCount]"
  proof (rule nth_equalityI)
    show "length (map PartNumber m) = length (map Some [1..partsCount])"
      using m(2) by simp
    fix i assume "i < length (map PartNumber m)"
    then have i: "i < nat partsCount" using m(2) by simp
    then have "int i + 1 \<in> set (map partNumber ts)" unfolding nums by simp
    then obtain t where t: "t \<in> set ts" "partNumber t = int i + 1" by auto
    then have in_rs: "worker client t \<in> set rs" using sets by (simp add: rs_def)
    have "PartNumber (part (worker client t)) = Some (int i + 1)"
      using w[of t] t(2) by simp
    then have "m ! nat (int i + 1 - 1) = part (worker client t)"
      using m(3)[rule_format, OF in_rs] by blast
    then show "map PartNumber m ! i = map Some [1..partsCount] ! i"
      using i m(2) w[of t] t(2) by simp
  qed
  then show ?thesis using m(1) by (auto simp: rs_def)
qed

text \<open>
  C1, as stated, fails: eight megabytes on standard input with ten declared are uploaded
  as two parts and the upload is completed; no error is raised and nothing is aborted.
\<close>

theorem truncated_input_is_completed:
  "run ten_megabytes eight_megabyte_input accepting id
     = ([Create ''bucket'' ''key'', Complete two_parts], Completed)"
  by (simp add: run_eval ten_megabytes_def eight_megabyte_input_def)

text \<open>
  C1, amended. When standard input ends cleanly after fewer bytes than declared, the read
  loop records no read error: it ends by \<^verbatim>\<open>break\<close> at the short read
  (\<^verbatim>\<open>io.EOF\<close> or \<^verbatim>\<open>io.ErrUnexpectedEOF\<close>), and the tasks it dispatched hold
  every byte received. When the bytes received reach into the last part, all
  \<open>partsCount\<close> parts are dispatched, and if every upload and the completion call
  succeed the session is completed with the manifest \<open>1..partsCount\<close> and never
  aborted.
\<close>

theorem short_input_ends_the_loop:
  assumes P: "0 < partSize" "partSize < 2 ^ 63"
    and S: "0 < inputSize" "inputSize < 2 ^ 63"
    and C: "calculatePartsCount inputSize partSize = Inr partsCount" "partsCount < 2 ^ 31 - 1"
    and clean: "\<not> broken input"
    and short: "int (length (pending input)) < inputSize"
  shows "\<exists>ts. readLoop inputSize partSize partsCount 1 input = (ts, LoopBreak, input\<lparr>pending := []\<rparr>)
          \<and> concat (map data ts) = pending input
          \<and> ((partsCount - 1) * partSize < int (length (pending input))
               \<and> (\<forall>n body. \<exists>etag. UploadPart client n body = Inr etag)
               \<and> (\<forall>parts. CompleteMultipartUpload client parts = None)
               \<and> mset (arrival ts) = mset ts
              \<longrightarrow> (\<exists>m. session inputSize partSize partsCount input client arrival
                          = ([Complete m], Completed)
                        \<and> map PartNumber m = map Some [1..partsCount]))"
proof -
  have c: "partsCount = inputSize div partSize + (if inputSize mod partSize = 0 then 0 else 1)"
    using calc_eq[OF S P] C(1) by simp
  have pc: "1 \<le> partsCount" using count_ge1[OF S(1) P(1)] c by simp
  obtain ts where ts:
    "readLoop inputSize partSize partsCount 1 input = (ts, LoopBreak, input\<lparr>pending := []\<rparr>)"
    "concat (map data ts) = pending input"
    "(partsCount - 1) * partSize < int (length (pending input))
        \<longrightarrow> map partNumber ts = [1..partsCount]"
    using readLoop_short[OF P S c C(2) clean, of 1 "nat partsCount" input] pc short by auto
  have "\<exists>m. session inputSize partSize partsCount input client arrival = ([Complete m], Completed)
          \<and> map PartNumber m = map Some [1..partsCount]"
    if h: "(partsCount - 1) * partSize < int (length (pending input))"
      "\<forall>n body. \<exists>etag. UploadPart client n body = Inr etag"
      "\<forall>parts. CompleteMultipartUpload client parts = None"
      "mset (arrival ts) = mset ts"
  proof -
    have nums: "map partNumber ts = [1..partsCount]" using ts(3) h(1) by simp
    obtain m where m: "collector partsCount 0 (map (worker client) (arrival ts))
               (replicate (nat partsCount) zeroPart) = Collected m"
      "map PartNumber m = map Some [1..partsCount]"
      using all_uploads_collected[of client arrival ts partsCount, OF h(2) h(4) _ nums] pc by auto
    have "session inputSize partSize partsCount input client arrival = ([Complete m], Completed)"
      using pc ts(1) m(1) h(3) by (simp add: session_def finish_def readErrorOf_def)
    then show ?thesis using m(2) by blast
  qed
  then show ?thesis using ts(1,2) by blast
qed

theorem short_input_ends_the_loop_witness:
  "calculatePartsCount 10485760 5242880 = Inr 2
   \<and> \<not> broken eight_megabyte_input
   \<and> int (length (pending eight_megabyte_input)) < 10485760
   \<and> (\<exists>m. session 10485760 5242880 2 eight_megabyte_input accepting id
              = ([Complete m], Completed)
          \<and> map PartNumber m = map Some [1..2])"
proof -
  have c: "calculatePartsCount 10485760 5242880 = Inr 2"
    by (simp add: calculatePartsCount_def int64_def signed_divide_int_def signed_modulo_int_def)
  have b: "\<not> broken eight_megabyte_input" by (simp add: eight_megabyte_input_def)
  have l: "int (length (pending eight_megabyte_input)) < 10485760"
    by (simp add: eight_megabyte_input_def)
  have r: "(2 - 1) * 5242880 < int (length (pending eight_megabyte_input))"
    by (simp add: eight_megabyte_input_def)
  have u: "\<forall>n body. \<exists>etag. UploadPart accepting n body = Inr etag"
    "\<forall>parts. CompleteMultipartUpload accepting parts = None"
    by (simp_all add: accepting_def)
  show ?thesis
    using c b l r u
      short_input_ends_the_loop[of 5242880 10485760 2 eight_megabyte_input accepting id,
        OF _ _ _ _ c _ b l]
    by auto
qed

subsection \<open>An input longer than declared\<close>

lemma uploadLoop_seq_unfold:
  "uploadLoop_seq client partSize partNo \<lparr>pending = xs, broken = b\<rparr> parts =
     (case ReadFull \<lparr>pending = xs, broken = b\<rparr> (nat partSize) of
        (bytes, e, r') \<Rightarrow>
          if e = Some ReadFailed then ([Abort], Inl (Fatal ReadInputFailed), r')
          else if length bytes = 0 then ([], Inr parts, r')
          else (case UploadPart client partNo bytes of
                  Inl uploadErr \<Rightarrow>
                    ([Upload partNo bytes, Abort], Inl (Fatal (UploadFailed uploadErr)), r')
                | Inr etag \<Rightarrow>
                    (let parts' = parts @ [\<lparr>ETag = Some etag, PartNumber = Some partNo\<rparr>]
                     in if e \<noteq> None then ([Upload partNo bytes], Inr parts', r')
                        else (case uploadLoop_seq client partSize (int32 (partNo + 1)) r' parts' of
                                (calls, res, r'') \<Rightarrow> (Upload partNo bytes # calls, res, r'')))))"
  by (rule uploadLoop_seq.simps)

text \<open>
  C4, as stated, fails on the sequential program: with ten megabytes declared, a part size
  of 5 MB and twelve megabytes on standard input, it reads to the end of the stream and
  uploads three parts, the third one holding the two megabytes beyond the declared size.
\<close>

theorem sequential_program_reads_to_the_end:
  "session_seq accepting ''bucket'' ''key'' 10485760 5242880 twelve_megabytes
     = ([Create ''bucket'' ''key'',
         Upload 1 (replicate 5242880 0), Upload 2 (replicate 5242880 0),
         Upload 3 (replicate 2097152 0),
         Complete [\<lparr>ETag = Some ''etag'', PartNumber = Some 1\<rparr>,
                   \<lparr>ETag = Some ''etag'', PartNumber = Some 2\<rparr>,
                   \<lparr>ETag = Some ''etag'', PartNumber = Some 3\<rparr>]],
        Completed, \<lparr>pending = [], broken = False\<rparr>)"
  by (simp add: session_seq_def twelve_megabytes_def accepting_def int64_def int32_def
      calculatePartsCount_def signed_divide_int_def signed_modulo_int_def
      uploadLoop_seq_unfold ReadFull_def Let_def)

lemma uploads_collected_tags:
  assumes up: "\<forall>n body. \<exists>etag. UploadPart client n body = Inr etag"
    and perm: "mset (arrival ts) = mset ts"
    and pos: "0 \<le> partsCount"
    and nums: "map partNumber ts = [1..partsCount]"
  shows "\<exists>m. collector partsCount 0 (map (worker client) (arrival ts))
               (replicate (nat partsCount) zeroPart) = Collected m
          \<and> length m = length ts
          \<and> (\<forall>i<length ts. \<exists>etag.
                 UploadPart client (int i + 1) (take (nat (psize (ts ! i))) (data (ts ! i))) = Inr etag
               \<and> m ! i = \<lparr>ETag = Some etag, PartNumber = Some (int i + 1)\<rparr>)"
proof -
  obtain m where m: "collector partsCount 0 (map (worker client) (arrival ts))
               (replicate (nat partsCount) zeroPart) = Collected m"
    using all_uploads_collected[of client arrival ts partsCount, OF up perm pos nums] by blast
  have man: "length m = nat partsCount"
    "\<forall>t\<in>set ts. err (worker client t) = None
            \<and> m ! nat (partNumber t - 1) = part (worker client t)"
    using collected_manifest[of arrival ts partsCount client m, OF perm pos nums m] by simp_all
  have "length (map partNumber ts) = length [1..partsCount]" using nums by simp
  then have lts: "length ts = nat partsCount" by simp
  have slot: "\<exists>etag. UploadPart client (int i + 1) (take (nat (psize (ts ! i))) (data (ts ! i))) = Inr etag
               \<and> m ! i = \<lparr>ETag = Some etag, PartNumber = Some (int i + 1)\<rparr>"
    if i: "i < length ts" for i
  proof -
    have "map partNumber ts ! i = [1..partsCount] ! i" using nums by simp
    then have pn: "partNumber (ts ! i) = int i + 1" using i lts by simp
    have "ts ! i \<in> set ts" using i by simp
    then have "err (worker client (ts ! i)) = None"
      "m ! nat (partNumber (ts ! i) - 1) = part (worker client (ts ! i))"
      using man(2) by auto
    then show ?thesis using worker_ok[of client "ts ! i"] pn by auto
  qed
  show ?thesis using m man(1) lts slot by auto
qed

text \<open>
  C4, amended: in the concurrent program of \<^verbatim>\<open>main.go\<close>. When standard input has more
  bytes than declared, the reader dispatches exactly \<open>partsCount\<close> parts, numbered
  \<open>1..partsCount\<close>, whose bodies \<^verbatim>\<open>data[:size]\<close> are together the first
  \<open>inputSize\<close> bytes, and the loop ends with the excess still unread on the stream. When
  the backend accepts every upload and the completion, in whatever order the results
  arrive, the session is completed with one entry for each dispatched part, in the order
  of the parts: the entry of part \<open>i + 1\<close> carries the tag that \<^verbatim>\<open>UploadPart\<close>
  returned for this part number and the body of this part. Sizes are positive
  \<^verbatim>\<open>int64\<close> values and the part count is one that the \<^verbatim>\<open>int32\<close> part number
  can hold.
\<close>

theorem declared_size_bounds_the_upload:
  assumes P: "0 < partSize" "partSize < 2 ^ 63"
    and S: "0 < inputSize" "inputSize < 2 ^ 63"
    and C: "calculatePartsCount inputSize partSize = Inr partsCount" "partsCount < 2 ^ 31 - 1"
    and L: "nat inputSize < length (pending r)"
    and up: "\<forall>n body. \<exists>etag. UploadPart client n body = Inr etag"
    and comp: "\<forall>parts. CompleteMultipartUpload client parts = None"
    and perm: "\<forall>ts. mset (arrival ts) = mset ts"
  shows "\<exists>ts m. readLoop inputSize partSize partsCount 1 r
              = (ts, LoopDone, r\<lparr>pending := drop (nat inputSize) (pending r)\<rparr>)
          \<and> drop (nat inputSize) (pending r) \<noteq> []
          \<and> int (length ts) = partsCount
          \<and> map partNumber ts = [1..partsCount]
          \<and> concat (map (\<lambda>t. take (nat (psize t)) (data t)) ts) = take (nat inputSize) (pending r)
          \<and> session inputSize partSize partsCount r client arrival = ([Complete m], Completed)
          \<and> length m = length ts
          \<and> (\<forall>i<length ts. \<exists>etag.
                 UploadPart client (int i + 1) (take (nat (psize (ts ! i))) (data (ts ! i))) = Inr etag
               \<and> m ! i = \<lparr>ETag = Some etag, PartNumber = Some (int i + 1)\<rparr>)"
proof -
  have L': "nat inputSize \<le> length (pending r)" using L by simp
  obtain ts where ts:
    "readLoop inputSize partSize partsCount 1 r
       = (ts, LoopDone, r\<lparr>pending := drop (nat inputSize) (pending r)\<rparr>)"
    "concat (map data ts) = take (nat inputSize) (pending r)"
    "map partNumber ts = [1..partsCount]"
    "\<forall>t\<in>set ts. chunk_ok inputSize partSize t"
    using chunks_from_start[OF P S C L'] by blast
  have pc: "1 \<le> partsCount" using count_ge1[OF S(1) P(1)] calc_eq[OF S P] C(1) by simp
  have "length (map partNumber ts) = length [1..partsCount]" using ts(3) by simp
  then have len: "int (length ts) = partsCount" using pc by simp
  have "map (\<lambda>t. take (nat (psize t)) (data t)) ts = map data ts"
    using ts(4) by (intro map_cong) (auto simp: chunk_ok_def)
  then have bodies: "concat (map (\<lambda>t. take (nat (psize t)) (data t)) ts)
      = take (nat inputSize) (pending r)"
    using ts(2) by (simp only:)
  obtain m where m: "collector partsCount 0 (map (worker client) (arrival ts))
               (replicate (nat partsCount) zeroPart) = Collected m"
    "length m = length ts"
    "\<forall>i<length ts. \<exists>etag.
         UploadPart client (int i + 1) (take (nat (psize (ts ! i))) (data (ts ! i))) = Inr etag
       \<and> m ! i = \<lparr>ETag = Some etag, PartNumber = Some (int i + 1)\<rparr>"
    using uploads_collected_tags[of client arrival ts partsCount, OF up perm[rule_format] _ ts(3)] pc
    by auto
  have ses: "session inputSize partSize partsCount r client arrival = ([Complete m], Completed)"
    using pc ts(1) m(1) comp by (simp add: session_def finish_def readErrorOf_def)
  have rest: "drop (nat inputSize) (pending r) \<noteq> []" using L by simp
  show ?thesis
    apply (rule exI[of _ ts])
    apply (rule exI[of _ m])
    using ts(1) rest len ts(3) bodies ses m(2) m(3) apply (simp only: simp_thms)
    done
qed

theorem declared_size_bounds_the_upload_witness:
  "calculatePartsCount 11534336 5242880 = Inr 3
   \<and> nat 11534336 < length (pending twelve_megabytes)
   \<and> (\<exists>ts m. readLoop 11534336 5242880 3 1 twelve_megabytes
              = (ts, LoopDone, twelve_megabytes\<lparr>pending := replicate 1048576 0\<rparr>)
          \<and> int (length ts) = 3
          \<and> session 11534336 5242880 3 twelve_megabytes accepting rev = ([Complete m], Completed)
          \<and> length m = 3)"
proof -
  have c: "calculatePartsCount 11534336 5242880 = Inr 3"
    by (simp add: calculatePartsCount_def int64_def signed_divide_int_def signed_modulo_int_def)
  have l: "nat 11534336 < length (pending twelve_megabytes)"
    by (simp add: twelve_megabytes_def)
  have d: "drop (nat 11534336) (pending twelve_megabytes) = replicate 1048576 0"
    by (simp add: twelve_megabytes_def)
  have u: "\<forall>n body. \<exists>etag. UploadPart accepting n body = Inr etag"
    "\<forall>parts. CompleteMultipartUpload accepting parts = None"
    by (simp_all add: accepting_def)
  have p: "\<forall>ts::partUpload list. mset (rev ts) = mset ts" by simp
  obtain ts m where
    "readLoop 11534336 5242880 3 1 twelve_megabytes
       = (ts, LoopDone, twelve_megabytes\<lparr>pending := drop (nat 11534336) (pending twelve_megabytes)\<rparr>)"
    "int (length ts) = 3"
    "session 11534336 5242880 3 twelve_megabytes accepting rev = ([Complete m], Completed)"
    "length m = length ts"
    using declared_size_bounds_the_upload[of 5242880 11534336 3 twelve_megabytes accepting rev,
        OF _ _ _ _ c _ l u p]
    by auto
  then show ?thesis using c l d by auto
qed

subsection \<open>A failed read\<close>

text \<open>
  C6 on the code: when the first read of standard input fails, the loop records the read
  error and stops; the collector still waits for the results of the two parts, no worker
  will send any, and \<^verbatim>\<open>main\<close> never reaches the abort that follows
  \<^verbatim>\<open>collectorWG.Wait()\<close>. The session stays open: no abort is issued.
\<close>

theorem read_failure_is_never_aborted:
  "run ten_megabytes failing_input accepting id = ([Create ''bucket'' ''key''], Hang)"
  by (simp add: run_eval ten_megabytes_def failing_input_def)

subsection \<open>Parsing the target\<close>

lemma bucketChar_facts:
  assumes "bucketChar c"
  shows "c \<noteq> CHR ''/''" "c \<noteq> CHR ''#''" "c \<noteq> CHR ''?''" "c \<noteq> CHR ''@''" "c \<noteq> CHR '':''"
    "c \<noteq> CHR ''[''" "c \<noteq> CHR ''%''" "\<not> shouldEscapeHost c" "\<not> (byte_of c < 32 \<or> byte_of c = 127)"
  using assms
  by (auto simp: bucketChar_def isLetter_def isDigit_def byte_of_def shouldEscapeHost_def)

lemma Cut_absent: "sep \<notin> set s \<Longrightarrow> Cut s sep = (s, [], False)"
  by (simp add: Cut_def Let_def dropWhile_eq_Nil_conv)

lemma LastIndex_absent: "sep \<notin> set s \<Longrightarrow> LastIndex s sep = None"
  by (simp add: LastIndex_def)

lemma unescape_plain:
  "\<forall>c\<in>set s. c \<noteq> CHR ''%'' \<and> ((mode = encodeHost \<or> mode = encodeZone) \<longrightarrow> \<not> shouldEscapeHost c)
     \<Longrightarrow> unescape s mode = Inr s"
  by (induction s) auto

lemma getScheme_s3: "getScheme (CHR ''s'' # CHR ''3'' # CHR '':'' # rest) = Inr (''s3'', rest)"
  by (simp add: getScheme_def isLetter_def isDigit_def byte_of_def)

lemma Cut_fst: "fst (Cut s sep) = takeWhile (\<lambda>c. c \<noteq> sep) s"
  by (auto simp: Cut_def Let_def dropWhile_eq_Nil_conv takeWhile_eq_all_conv[THEN iffD2])

lemma parseAuthority_plain:
  assumes "list_all bucketChar b" "b \<noteq> []"
  shows "parseAuthority b = Inr b"
proof -
  have at: "CHR ''@'' \<notin> set b" and colon: "CHR '':'' \<notin> set b"
    using assms(1) bucketChar_facts(4,5) by (auto simp: list_all_iff)
  have "hd b \<noteq> CHR ''[''"
    using assms bucketChar_facts(6)[of "hd b"] by (cases b) (auto simp: list_all_iff)
  hence nb: "\<not> HasPrefix b ''[''"
    using assms(2) by (cases b) (auto simp: HasPrefix_def)
  have "unescape b encodeHost = Inr b"
    using assms(1) bucketChar_facts(7,8) by (intro unescape_plain) (auto simp: list_all_iff)
  thus ?thesis
    by (simp add: parseAuthority_def parseHost_def LastIndex_absent[OF at] LastIndex_absent[OF colon] nb)
qed

lemma plainBucket_set:
  assumes "list_all bucketChar b"
  shows "CHR ''/'' \<notin> set b" "CHR ''#'' \<notin> set b" "CHR ''?'' \<notin> set b"
    "\<forall>c\<in>set b. \<not> (byte_of c < 32 \<or> byte_of c = 127)"
proof -
  have a: "\<forall>c\<in>set b. bucketChar c" using assms by (simp add: list_all_iff)
  show "CHR ''/'' \<notin> set b" using a bucketChar_facts(1) by blast
  show "CHR ''#'' \<notin> set b" using a bucketChar_facts(2) by blast
  show "CHR ''?'' \<notin> set b" using a bucketChar_facts(3) by blast
  show "\<forall>c\<in>set b. \<not> (byte_of c < 32 \<or> byte_of c = 127)" using a bucketChar_facts(9) by blast
qed

lemma plainKey_set:
  assumes "list_all keyChar k"
  shows "CHR ''#'' \<notin> set k" "CHR ''?'' \<notin> set k" "CHR ''%'' \<notin> set k"
    "\<forall>c\<in>set k. \<not> (byte_of c < 32 \<or> byte_of c = 127)"
proof -
  have a: "\<forall>c\<in>set k. keyChar c" using assms by (simp add: list_all_iff)
  show "CHR ''#'' \<notin> set k" using a by (auto simp: keyChar_def)
  show "CHR ''?'' \<notin> set k" using a by (auto simp: keyChar_def)
  show "CHR ''%'' \<notin> set k" using a by (auto simp: keyChar_def)
  show "\<forall>c\<in>set k. \<not> (byte_of c < 32 \<or> byte_of c = 127)" using a by (auto simp: keyChar_def)
qed

lemma noctl_s3:
  assumes "\<forall>c\<in>set b. \<not> (byte_of c < 32 \<or> byte_of c = 127)"
    and "\<forall>c\<in>set k. \<not> (byte_of c < 32 \<or> byte_of c = 127)"
  shows "\<not> stringContainsCTLByte (''s3://'' @ b @ ''/'' @ k)"
  using assms by (simp add: stringContainsCTLByte_def list_ex_iff byte_of_def ball_Un)


lemma HasPrefix_slash: "HasPrefix rest ''//'' \<Longrightarrow> HasPrefix rest ''/''"
  by (cases rest) (auto simp: HasPrefix_def)

lemma parse_authority_form:
  assumes ctl: "\<not> stringContainsCTLByte u" and star: "u \<noteq> ''*''"
    and sch: "getScheme u = Inr (scheme, rest0)" and sne: "scheme \<noteq> []"
    and noq: "CHR ''?'' \<notin> set rest0" and hp: "HasPrefix rest0 ''//''"
    and pa: "parseAuthority (takeWhile (\<lambda>c. c \<noteq> CHR ''/'') (drop 2 rest0)) = Inr h"
    and up: "unescape (dropWhile (\<lambda>c. c \<noteq> CHR ''/'') (drop 2 rest0)) encodePath = Inr p"
  shows "parse u = Inr \<lparr>Scheme = scheme, Opaque = [], Host = h, Path = p, RawQuery = [], Fragment = []\<rparr>"
proof -
  have ne: "rest0 \<noteq> []" using hp by (auto simp: HasPrefix_def)
  then have "last rest0 \<in> set rest0" by (rule last_in_set)
  then have lq: "last rest0 \<noteq> CHR ''?''" using noq by metis
  have h1: "HasPrefix rest0 ''/''" using hp by (rule HasPrefix_slash)
  show ?thesis
    unfolding parse_def
    using ctl star sne lq h1 hp pa up by (simp add: sch Cut_absent[OF noq] Let_def)
qed

lemma parse_plain:
  assumes bl: "list_all bucketChar b" and bne: "b \<noteq> []"
    and kl: "list_all keyChar k" and kne: "k \<noteq> []"
  shows "parse (''s3://'' @ b @ ''/'' @ k)
       = Inr \<lparr>Scheme = ''s3'', Opaque = [], Host = b, Path = ''/'' @ k, RawQuery = [], Fragment = []\<rparr>"
proof -
  let ?s = "''s3://'' @ b @ ''/'' @ k"
  let ?rest0 = "''//'' @ b @ ''/'' @ k"
  note B = plainBucket_set[OF bl] and K = plainKey_set[OF kl]
  have noq: "CHR ''?'' \<notin> set ?rest0" using B(3) K(2) by simp
  have noctl: "\<not> stringContainsCTLByte ?s" using noctl_s3[OF B(4) K(4)] by simp
  have nostar: "?s \<noteq> ''*''" by simp
  have sch: "getScheme ?s = Inr (''s3'', ?rest0)"
    using getScheme_s3[of ?rest0] by simp
  have noslash: "\<And>c. c \<in> set b \<Longrightarrow> c \<noteq> CHR ''/''" using B(1) by blast
  have tw: "takeWhile (\<lambda>c. c \<noteq> CHR ''/'') (drop 2 ?rest0) = b"
    using noslash by (simp add: takeWhile_append2)
  have dw: "dropWhile (\<lambda>c. c \<noteq> CHR ''/'') (drop 2 ?rest0) = ''/'' @ k"
    using noslash by (simp add: dropWhile_append2)
  have pa: "parseAuthority (takeWhile (\<lambda>c. c \<noteq> CHR ''/'') (drop 2 ?rest0)) = Inr b"
    unfolding tw by (rule parseAuthority_plain[OF bl bne])
  have "unescape (''/'' @ k) encodePath = Inr (''/'' @ k)"
    using K(3) by (intro unescape_plain) auto
  then have up: "unescape (dropWhile (\<lambda>c. c \<noteq> CHR ''/'') (drop 2 ?rest0)) encodePath = Inr (''/'' @ k)"
    unfolding dw .
  have hp: "HasPrefix ?rest0 ''//''" by (simp add: HasPrefix_def)
  show ?thesis
    by (rule parse_authority_form[OF noctl nostar sch _ noq hp pa up]) simp
qed

lemma url_Parse_no_fragment:
  "CHR ''#'' \<notin> set u \<Longrightarrow> parse u = Inr url \<Longrightarrow> url_Parse u = Inr url"
  by (simp add: url_Parse_def Cut_absent)

lemma parseS3URI_exact:
  assumes b: "plainBucket b" and k: "plainKey k"
  shows "parseS3URI (''s3://'' @ b @ ''/'' @ k) = Inr (b, k)"
proof -
  let ?s = "''s3://'' @ b @ ''/'' @ k"
  have bl: "list_all bucketChar b" and bne: "b \<noteq> []" using b by (auto simp: plainBucket_def)
  have kl: "list_all keyChar k" and kne: "k \<noteq> []" using k by (auto simp: plainKey_def)
  have nohash: "CHR ''#'' \<notin> set ?s"
    using plainBucket_set(2)[OF bl] plainKey_set(1)[OF kl] by simp
  have "url_Parse ?s = Inr \<lparr>Scheme = ''s3'', Opaque = [], Host = b, Path = ''/'' @ k, RawQuery = [], Fragment = []\<rparr>"
    by (rule url_Parse_no_fragment[OF nohash parse_plain[OF bl bne kl kne]])
  moreover have "HasPrefix ?s ''s3://''" by (simp add: HasPrefix_def)
  ultimately show ?thesis
    using bne kne by (simp add: parseS3URI_def TrimPrefix_def HasPrefix_def)
qed


lemma Cut_takeWhile: "Cut s sep = (a, b, c) \<Longrightarrow> a = takeWhile (\<lambda>c. c \<noteq> sep) s"
  using Cut_fst[of s sep] by simp

lemma url_Parse_parse:
  assumes "url_Parse s = Inr u"
  shows "\<exists>url. parse (takeWhile (\<lambda>c. c \<noteq> CHR ''#'') s) = Inr url
            \<and> Host u = Host url \<and> Path u = Path url"
  using assms
  by (auto simp: url_Parse_def dest!: Cut_takeWhile split: prod.splits sum.splits if_splits)

lemma parse_authority_shape:
  assumes p: "parse u = Inr url" and sch: "getScheme u = Inr (scheme, rest0)"
    and sne: "scheme \<noteq> []" and star: "u \<noteq> ''*''"
  shows "\<exists>rest. (rest = takeWhile (\<lambda>c. c \<noteq> CHR ''?'') rest0
                  \<or> (rest0 \<noteq> [] \<and> last rest0 = CHR ''?'' \<and> rest = butlast rest0))
            \<and> (HasPrefix rest ''//'' \<longrightarrow>
                  parseAuthority (takeWhile (\<lambda>c. c \<noteq> CHR ''/'') (drop 2 rest)) = Inr (Host url)
                \<and> unescape (dropWhile (\<lambda>c. c \<noteq> CHR ''/'') (drop 2 rest)) encodePath = Inr (Path url))"
proof (cases "rest0 \<noteq> [] \<and> last rest0 = CHR ''?'' \<and> count_list rest0 CHR ''?'' = 1")
  case True
  have "parseAuthority (takeWhile (\<lambda>c. c \<noteq> CHR ''/'') (drop 2 (butlast rest0))) = Inr (Host url)
      \<and> unescape (dropWhile (\<lambda>c. c \<noteq> CHR ''/'') (drop 2 (butlast rest0))) encodePath = Inr (Path url)"
    if h: "HasPrefix (butlast rest0) ''//''"
    using p star sne h HasPrefix_slash[OF h] True
    by (auto simp: parse_def sch Let_def split: if_splits sum.splits)
  then show ?thesis using True by blast
next
  case False
  obtain a b c where cut: "Cut rest0 CHR ''?'' = (a, b, c)" by (cases "Cut rest0 CHR ''?''")
  have a: "a = takeWhile (\<lambda>c. c \<noteq> CHR ''?'') rest0" using cut by (rule Cut_takeWhile)
  have "parseAuthority (takeWhile (\<lambda>c. c \<noteq> CHR ''/'') (drop 2 a)) = Inr (Host url)
      \<and> unescape (dropWhile (\<lambda>c. c \<noteq> CHR ''/'') (drop 2 a)) encodePath = Inr (Path url)"
    if h: "HasPrefix a ''//''"
    using p star sne h HasPrefix_slash[OF h] False
    by (auto simp: parse_def sch cut Let_def split: if_splits sum.splits)
  then show ?thesis using a by blast
qed

lemma s3_shape:
  assumes "url_Parse (''s3://'' @ body) = Inr u"
  shows "\<exists>body1 r. body = body1 @ r
      \<and> parseAuthority (takeWhile (\<lambda>c. c \<noteq> CHR ''/'') body1) = Inr (Host u)
      \<and> unescape (dropWhile (\<lambda>c. c \<noteq> CHR ''/'') body1) encodePath = Inr (Path u)"
proof -
  define body0 where "body0 = takeWhile (\<lambda>c. c \<noteq> CHR ''#'') body"
  define rest0 where "rest0 = ''//'' @ body0"
  have tw: "takeWhile (\<lambda>c. c \<noteq> CHR ''#'') (''s3://'' @ body) = ''s3:'' @ rest0"
    by (simp add: body0_def rest0_def)
  obtain url where url: "parse (''s3:'' @ rest0) = Inr url" "Host u = Host url" "Path u = Path url"
    using url_Parse_parse[OF assms] unfolding tw by blast
  have sch: "getScheme (''s3:'' @ rest0) = Inr (''s3'', rest0)"
    using getScheme_s3[of rest0] by simp
  obtain rest where rest: "rest = takeWhile (\<lambda>c. c \<noteq> CHR ''?'') rest0
                  \<or> (rest0 \<noteq> [] \<and> last rest0 = CHR ''?'' \<and> rest = butlast rest0)"
    "HasPrefix rest ''//'' \<longrightarrow>
                  parseAuthority (takeWhile (\<lambda>c. c \<noteq> CHR ''/'') (drop 2 rest)) = Inr (Host url)
                \<and> unescape (dropWhile (\<lambda>c. c \<noteq> CHR ''/'') (drop 2 rest)) encodePath = Inr (Path url)"
    using parse_authority_shape[OF url(1) sch] by auto
  have "\<exists>body1 r. rest = ''//'' @ body1 \<and> body0 = body1 @ r"
    using rest(1)
  proof
    assume a: "rest = takeWhile (\<lambda>c. c \<noteq> CHR ''?'') rest0"
    have "rest = ''//'' @ takeWhile (\<lambda>c. c \<noteq> CHR ''?'') body0" using a by (simp add: rest0_def)
    moreover have "body0 = takeWhile (\<lambda>c. c \<noteq> CHR ''?'') body0 @ dropWhile (\<lambda>c. c \<noteq> CHR ''?'') body0"
      by simp
    ultimately show ?thesis by blast
  next
    assume a: "rest0 \<noteq> [] \<and> last rest0 = CHR ''?'' \<and> rest = butlast rest0"
    have ne: "body0 \<noteq> []" using a by (auto simp: rest0_def)
    then have "rest = ''//'' @ butlast body0" using a by (simp add: rest0_def)
    moreover have "body0 = butlast body0 @ [last body0]" using ne by simp
    ultimately show ?thesis by blast
  qed
  then obtain body1 r where b1: "rest = ''//'' @ body1" "body0 = body1 @ r" by blast
  have hp: "HasPrefix rest ''//''" using b1(1) by (simp add: HasPrefix_def)
  have d2: "drop 2 rest = body1" using b1(1) by simp
  have "body = body1 @ (r @ dropWhile (\<lambda>c. c \<noteq> CHR ''#'') body)"
    using b1(2) takeWhile_dropWhile_id[of "\<lambda>c. c \<noteq> CHR ''#''" body] unfolding body0_def
    by (metis append_assoc)
  then show ?thesis using rest(2) hp d2 url(2,3) by metis
qed


lemma parseAuthority_Nil: "parseAuthority [] = Inr []"
  by (simp add: parseAuthority_def parseHost_def LastIndex_def HasPrefix_def)

lemma missing_bucket:
  assumes "body = [] \<or> hd body = CHR ''/''"
  shows "\<exists>e. parseS3URI (''s3://'' @ body) = Inl e"
proof (cases "url_Parse (''s3://'' @ body)")
  case (Inl e)
  then show ?thesis by (simp add: parseS3URI_def)
next
  case (Inr u)
  obtain body1 r where b: "body = body1 @ r"
    "parseAuthority (takeWhile (\<lambda>c. c \<noteq> CHR ''/'') body1) = Inr (Host u)"
    using s3_shape[OF Inr] by blast
  have "takeWhile (\<lambda>c. c \<noteq> CHR ''/'') body1 = []"
    using assms b(1) by (cases body1) auto
  then have "Host u = []" using b(2) by (simp add: parseAuthority_Nil)
  then show ?thesis using Inr by (simp add: parseS3URI_def Let_def)
qed

lemma prefix_path:
  assumes "body1 @ r = b @ rest" and "CHR ''/'' \<notin> set b" and "rest = [] \<or> rest = ''/''"
  shows "dropWhile (\<lambda>c. c \<noteq> CHR ''/'') body1 = [] \<or> dropWhile (\<lambda>c. c \<noteq> CHR ''/'') body1 = ''/''"
proof -
  from assms(1) obtain us where
    "(body1 = b @ us \<and> us @ r = rest) \<or> (body1 @ us = b \<and> r = us @ rest)"
    unfolding append_eq_append_conv2 by blast
  then show ?thesis
  proof
    assume a: "body1 = b @ us \<and> us @ r = rest"
    then have us: "us = [] \<or> us = ''/''" using assms(3) by (cases us) auto
    have ns: "\<And>c. c \<in> set b \<Longrightarrow> c \<noteq> CHR ''/''" using assms(2) by blast
    have "dropWhile (\<lambda>c. c \<noteq> CHR ''/'') body1 = dropWhile (\<lambda>c. c \<noteq> CHR ''/'') us"
      using a ns by (simp add: dropWhile_append2)
    then show ?thesis using us by auto
  next
    assume a: "body1 @ us = b \<and> r = us @ rest"
    then have "set body1 \<subseteq> set b" by auto
    then have "CHR ''/'' \<notin> set body1" using assms(2) by blast
    then have "dropWhile (\<lambda>c. c \<noteq> CHR ''/'') body1 = []" by (auto simp: dropWhile_eq_Nil_conv)
    then show ?thesis by simp
  qed
qed

lemma missing_key:
  assumes "CHR ''/'' \<notin> set b" and "rest = [] \<or> rest = ''/''"
  shows "\<exists>e. parseS3URI (''s3://'' @ b @ rest) = Inl e"
proof (cases "url_Parse (''s3://'' @ b @ rest)")
  case (Inl e)
  then show ?thesis by (simp add: parseS3URI_def)
next
  case (Inr u)
  have "url_Parse (''s3://'' @ (b @ rest)) = Inr u" using Inr by simp
  from s3_shape[OF this] obtain body1 r where b: "b @ rest = body1 @ r"
    "unescape (dropWhile (\<lambda>c. c \<noteq> CHR ''/'') body1) encodePath = Inr (Path u)"
    by blast
  have "dropWhile (\<lambda>c. c \<noteq> CHR ''/'') body1 = [] \<or> dropWhile (\<lambda>c. c \<noteq> CHR ''/'') body1 = ''/''"
    using prefix_path[OF b(1)[symmetric] assms] .
  then have "Path u = [] \<or> Path u = ''/''"
  proof
    assume e: "dropWhile (\<lambda>c. c \<noteq> CHR ''/'') body1 = []"
    have "unescape [] encodePath = Inr (Path u)" using b(2) unfolding e .
    then show ?thesis by simp
  next
    assume e: "dropWhile (\<lambda>c. c \<noteq> CHR ''/'') body1 = ''/''"
    have "unescape ''/'' encodePath = Inr (Path u)" using b(2) unfolding e .
    then show ?thesis by simp
  qed
  then have "TrimPrefix (Path u) ''/'' = []" by (auto simp: TrimPrefix_def HasPrefix_def)
  then show ?thesis using Inr by (simp add: parseS3URI_def Let_def)
qed

lemma regexp_exact:
  assumes "b \<noteq> []" "CHR ''/'' \<notin> set b" "k \<noteq> []" "CHR 0x0A \<notin> set k"
  shows "parseS3URI_regexp (''s3://'' @ b @ ''/'' @ k) = Inr (b, k)"
proof -
  have ns: "\<And>c. c \<in> set b \<Longrightarrow> c \<noteq> CHR ''/''" using assms(2) by blast
  have "takeWhile (\<lambda>c. c \<noteq> CHR ''/'') (b @ ''/'' @ k) = b"
    "dropWhile (\<lambda>c. c \<noteq> CHR ''/'') (b @ ''/'' @ k) = ''/'' @ k"
    using ns by (simp_all add: takeWhile_append2 dropWhile_append2)
  then show ?thesis using assms by (simp add: parseS3URI_regexp_def HasPrefix_def Let_def)
qed

lemma regexp_missing_bucket:
  assumes "body = [] \<or> hd body = CHR ''/''"
  shows "parseS3URI_regexp (''s3://'' @ body) = Inl InvalidFormat"
  using assms by (cases body) (auto simp: parseS3URI_regexp_def Let_def HasPrefix_def)

lemma regexp_missing_key:
  assumes "CHR ''/'' \<notin> set b" and "rest = [] \<or> rest = ''/''"
  shows "parseS3URI_regexp (''s3://'' @ b @ rest) = Inl InvalidFormat"
proof -
  have ns: "\<And>c. c \<in> set b \<Longrightarrow> c \<noteq> CHR ''/''" using assms(1) by blast
  have "dropWhile (\<lambda>c. c \<noteq> CHR ''/'') (b @ rest) = rest"
    using ns assms(2) by (auto simp: dropWhile_append2)
  then show ?thesis using assms(2) by (auto simp: parseS3URI_regexp_def Let_def HasPrefix_def)
qed



text \<open>
  C7, as stated, fails: \<^verbatim>\<open>url.Parse\<close> cuts the key at a \<^verbatim>\<open>?\<close> and decodes the
  percent escapes of the path, so the key returned is not the substring of the input that
  follows the first \<^verbatim>\<open>/\<close>. For \<^verbatim>\<open>s3://bucket/a?b\<close> the key is \<^verbatim>\<open>a\<close>, and
  for \<^verbatim>\<open>s3://bucket/100%25.txt\<close> it is \<^verbatim>\<open>100%.txt\<close>.
\<close>

theorem query_and_escapes_change_the_key:
  "parseS3URI ''s3://bucket/a?b'' = Inr (''bucket'', ''a'')
   \<and> parseS3URI ''s3://bucket/100%25.txt'' = Inr (''bucket'', ''100%.txt'')"
  by code_simp

text \<open>
  C7, amended. For a bucket made of letters, digits, \<^verbatim>\<open>-\<close>, \<^verbatim>\<open>.\<close> and
  \<^verbatim>\<open>_\<close> and a key without \<^verbatim>\<open>%\<close>, \<^verbatim>\<open>?\<close>, \<^verbatim>\<open>#\<close> and control bytes,
  both non-empty, \<^verbatim>\<open>parseS3URI\<close> returns exactly the bucket and the key of
  \<^verbatim>\<open>s3://bucket/key\<close>, split at the first \<^verbatim>\<open>/\<close> after the scheme. The parser of
  the older program, a regular expression, does so for every non-empty bucket without
  \<^verbatim>\<open>/\<close> and every non-empty key without a newline. Both parsers return an error for a
  target that does not start with \<^verbatim>\<open>s3://\<close>, for a target with nothing between
  \<^verbatim>\<open>s3://\<close> and the first \<^verbatim>\<open>/\<close> (or the end), and for a target with no
  \<^verbatim>\<open>/\<close> after the bucket or nothing after that \<^verbatim>\<open>/\<close>.
\<close>

theorem plain_targets_are_split_exactly:
  "(plainBucket b \<and> plainKey k \<longrightarrow> parseS3URI (''s3://'' @ b @ ''/'' @ k) = Inr (b, k))
   \<and> (b \<noteq> [] \<and> CHR ''/'' \<notin> set b \<and> k \<noteq> [] \<and> CHR 0x0A \<notin> set k
        \<longrightarrow> parseS3URI_regexp (''s3://'' @ b @ ''/'' @ k) = Inr (b, k))
   \<and> (\<not> HasPrefix s ''s3://''
        \<longrightarrow> parseS3URI s = Inl MustStartWithS3 \<and> parseS3URI_regexp s = Inl InvalidFormat)
   \<and> (body = [] \<or> hd body = CHR ''/''
        \<longrightarrow> (\<exists>e. parseS3URI (''s3://'' @ body) = Inl e)
          \<and> parseS3URI_regexp (''s3://'' @ body) = Inl InvalidFormat)
   \<and> (CHR ''/'' \<notin> set bkt \<and> (rest = [] \<or> rest = ''/'')
        \<longrightarrow> (\<exists>e. parseS3URI (''s3://'' @ bkt @ rest) = Inl e)
          \<and> parseS3URI_regexp (''s3://'' @ bkt @ rest) = Inl InvalidFormat)"
proof -
  have 1: "plainBucket b \<and> plainKey k \<longrightarrow> parseS3URI (''s3://'' @ b @ ''/'' @ k) = Inr (b, k)"
    using parseS3URI_exact by blast
  have 2: "b \<noteq> [] \<and> CHR ''/'' \<notin> set b \<and> k \<noteq> [] \<and> CHR 0x0A \<notin> set k
        \<longrightarrow> parseS3URI_regexp (''s3://'' @ b @ ''/'' @ k) = Inr (b, k)"
    using regexp_exact by blast
  have 3: "\<not> HasPrefix s ''s3://''
        \<longrightarrow> parseS3URI s = Inl MustStartWithS3 \<and> parseS3URI_regexp s = Inl InvalidFormat"
    by (simp add: parseS3URI_def parseS3URI_regexp_def)
  have 4: "body = [] \<or> hd body = CHR ''/''
        \<longrightarrow> (\<exists>e. parseS3URI (''s3://'' @ body) = Inl e)
          \<and> parseS3URI_regexp (''s3://'' @ body) = Inl InvalidFormat"
    using missing_bucket regexp_missing_bucket by blast
  have 5: "CHR ''/'' \<notin> set bkt \<and> (rest = [] \<or> rest = ''/'')
        \<longrightarrow> (\<exists>e. parseS3URI (''s3://'' @ bkt @ rest) = Inl e)
          \<and> parseS3URI_regexp (''s3://'' @ bkt @ rest) = Inl InvalidFormat"
    using missing_key regexp_missing_key by blast
  show ?thesis using 1 2 3 4 5 by (simp only: simp_thms)
qed

theorem plain_targets_are_split_exactly_witness:
  "plainBucket ''my-bucket'' \<and> plainKey ''dir/file.txt''
   \<and> parseS3URI ''s3://my-bucket/dir/file.txt'' = Inr (''my-bucket'', ''dir/file.txt'')
   \<and> parseS3URI_regexp ''s3://my-bucket/dir/file.txt'' = Inr (''my-bucket'', ''dir/file.txt'')
   \<and> \<not> HasPrefix ''https://bucket/key'' ''s3://''
   \<and> parseS3URI ''https://bucket/key'' = Inl MustStartWithS3
   \<and> (\<exists>e. parseS3URI ''s3:///key'' = Inl e)
   \<and> (\<exists>e. parseS3URI ''s3://bucket/'' = Inl e)"
proof -
  note T = plain_targets_are_split_exactly[of "''my-bucket''" "''dir/file.txt''"
      "''https://bucket/key''" "''/key''" "''bucket''" "''/''"]
  have pb: "plainBucket ''my-bucket''" by code_simp
  have pk: "plainKey ''dir/file.txt''" by code_simp
  have np: "\<not> HasPrefix ''https://bucket/key'' ''s3://''" by (simp add: HasPrefix_def)
  have h2: "''my-bucket'' \<noteq> [] \<and> CHR ''/'' \<notin> set ''my-bucket'' \<and> ''dir/file.txt'' \<noteq> []
      \<and> CHR 0x0A \<notin> set ''dir/file.txt''" by simp
  have h4: "''/key'' = [] \<or> hd ''/key'' = CHR ''/''" by simp
  have h5: "CHR ''/'' \<notin> set ''bucket'' \<and> (''/'' = [] \<or> ''/'' = ''/'')" by simp
  have a: "parseS3URI (''s3://'' @ ''my-bucket'' @ ''/'' @ ''dir/file.txt'')
      = Inr (''my-bucket'', ''dir/file.txt'')"
    using T[THEN conjunct1] pb pk by (simp only: simp_thms)
  have b: "parseS3URI_regexp (''s3://'' @ ''my-bucket'' @ ''/'' @ ''dir/file.txt'')
      = Inr (''my-bucket'', ''dir/file.txt'')"
    using T[THEN conjunct2, THEN conjunct1] h2 by (simp only: simp_thms)
  have c: "parseS3URI ''https://bucket/key'' = Inl MustStartWithS3"
    using T[THEN conjunct2, THEN conjunct2, THEN conjunct1] np by (simp only: simp_thms)
  have d: "\<exists>e. parseS3URI (''s3://'' @ ''/key'') = Inl e"
    using T[THEN conjunct2, THEN conjunct2, THEN conjunct2, THEN conjunct1] h4
    by (simp only: simp_thms)
  have e: "\<exists>e. parseS3URI (''s3://'' @ ''bucket'' @ ''/'') = Inl e"
    using T[THEN conjunct2, THEN conjunct2, THEN conjunct2, THEN conjunct2] h5
    by (simp only: simp_thms)
  have ap: "''s3://'' @ ''my-bucket'' @ ''/'' @ ''dir/file.txt'' = ''s3://my-bucket/dir/file.txt''"
    "''s3://'' @ ''/key'' = ''s3:///key''" "''s3://'' @ ''bucket'' @ ''/'' = ''s3://bucket/''"
    by simp_all
  show ?thesis
    using pb pk np a b c d e unfolding ap by (simp only: simp_thms)
qed

end
